theory Spec2Isabelle
  imports Main "HOL-Library.Word" "HOL-Library.Monad_Syntax"
begin

unbundle bit_operations_syntax

section \<open>C strings and characters\<close>

text \<open>
  A \<^typ>\<open>string\<close> stands for the bytes of a character array, without the terminating
  NUL that follows them in memory. The array may hold a NUL of its own (the parser
  writes one into an argument, see \<open>cli_parse_long\<close>), so every place where the C code
  reads a string (\<open>strlen\<close>, \<open>strchr\<close>, \<open>memcmp\<close> over \<open>strlen\<close> bytes, \<open>%s\<close>)
  reads \<open>cstr\<close> of the array: the bytes before the first NUL.
\<close>

definition NUL :: char where
  "NUL = CHR 0x00"

definition newline :: char where
  "newline = CHR 0x0A"

definition tab :: char where
  "tab = CHR 0x09"

definition ESC :: char where
  "ESC = CHR 0x1B"

definition cstr :: "string \<Rightarrow> string" where
  "cstr b = takeWhile (\<lambda>c. c \<noteq> NUL) b"

definition strlen :: "string \<Rightarrow> nat" where
  "strlen b = length (cstr b)"

text \<open>\<open>b[i]\<close>: the byte at offset \<open>i\<close>; offset \<open>length b\<close> holds the terminator.\<close>

definition char_at :: "string \<Rightarrow> nat \<Rightarrow> char" where
  "char_at b i = (if i < length b then b ! i else NUL)"

text \<open>\<open>strchr(b, c)\<close> for a \<open>c\<close> other than NUL: the offset of the first \<open>c\<close>, or NULL.\<close>

definition strchr :: "string \<Rightarrow> char \<Rightarrow> nat option" where
  "strchr b c =
     (if c \<in> set (cstr b) then Some (length (takeWhile (\<lambda>d. d \<noteq> c) (cstr b))) else None)"

text \<open>\<open>memcmp(a, b, n) == 0\<close>.\<close>

definition memcmp_eq :: "string \<Rightarrow> string \<Rightarrow> nat \<Rightarrow> bool" where
  "memcmp_eq a b n = (take n a = take n b)"

text \<open>
  The value of a plain \<open>char\<close> promoted to \<open>int\<close>. Plain \<open>char\<close> is taken as signed,
  as on the x86 ABIs; on bytes below 128 (all of ASCII) both signednesses agree.
\<close>

definition char_int :: "char \<Rightarrow> int" where
  "char_int c = (if (of_char c :: int) < 128 then of_char c else of_char c - 256)"

text \<open>\<open>isalnum\<close> in the C locale: digits and ASCII letters only.\<close>

definition isalnum :: "int \<Rightarrow> bool" where
  "isalnum c = ((48 \<le> c \<and> c \<le> 57) \<or> (65 \<le> c \<and> c \<le> 90) \<or> (97 \<le> c \<and> c \<le> 122))"

section \<open>Descriptors (clip.h)\<close>

text \<open>
  A pointer that may be NULL is an \<open>option\<close>. The field \<open>help\<close> of \<open>struct cli_opt\<close>
  is \<open>help'\<close> here. \<open>mode\<close> and \<open>flags\<close> are \<open>unsigned\<close>.
\<close>

record cli_opt =
  a_short :: int
  a_long :: "string option"
  tag :: "string option"
  mode :: "32 word"
  help' :: "string option"

text \<open>
  An array of descriptors ends at the first entry that is an end marker
  (\<open>CLI_OPT_END\<close>, \<open>CLI_CMD_END\<close>). A list holds the entries of the array before its
  last marker; a scan stops at the first marker it meets, or at the end of the list.

  The code compares groups as pointers (\<open>cmd == clip->base\<close>), so a group is known by
  the object it is and not by what it holds. \<open>addr\<close> is the address of the object: two
  records are equal when they are the same object, and two objects with the same
  contents at different addresses are different groups.
\<close>

record cli_sub_cmd =
  addr :: nat
  name :: "string option"
  opts :: "cli_opt list option"

definition ARG_REQD :: "32 word" where
  "ARG_REQD = 0x01"

definition ARG_ANYK :: "32 word" where
  "ARG_ANYK = 0x02"

definition CLIP_BUFFER_SIZE :: nat where
  "CLIP_BUFFER_SIZE = 1024"

definition CLIP_ERR_HELP :: int where
  "CLIP_ERR_HELP = 1"

definition CLIP_ERR_OK :: int where
  "CLIP_ERR_OK = 0"

definition CLIP_ERR_INVALID :: int where
  "CLIP_ERR_INVALID = -1"

definition CLIP_ERR_CB_FAIL :: int where
  "CLIP_ERR_CB_FAIL = -2"

definition CLIP_ERR_BAD_SUBCMD :: int where
  "CLIP_ERR_BAD_SUBCMD = -3"

definition CLIP_ERR_BAD_ARG :: int where
  "CLIP_ERR_BAD_ARG = -4"

definition CLIP_FLAG_HELP :: "32 word" where
  "CLIP_FLAG_HELP = 0x01"

definition CLIP_FLAG_VERSION :: "32 word" where
  "CLIP_FLAG_VERSION = 0x02"

definition CLIP_FLAG_USE_ANSI :: "32 word" where
  "CLIP_FLAG_USE_ANSI = 0x04"

definition CLI_OPT_SWITCH :: "int \<Rightarrow> string option \<Rightarrow> string option \<Rightarrow> cli_opt" where
  "CLI_OPT_SWITCH s l h = \<lparr>a_short = s, a_long = l, tag = None, mode = 0, help' = h\<rparr>"

definition CLI_OPT_VALUE :: "int \<Rightarrow> string option \<Rightarrow> string option \<Rightarrow> string option \<Rightarrow> cli_opt" where
  "CLI_OPT_VALUE s l t h = \<lparr>a_short = s, a_long = l, tag = t, mode = 0x01, help' = h\<rparr>"

definition CLI_OPT_NARGS :: "string option \<Rightarrow> string option \<Rightarrow> cli_opt" where
  "CLI_OPT_NARGS t h = \<lparr>a_short = 0, a_long = None, tag = t, mode = 0x02, help' = h\<rparr>"

text \<open>The object at address \<open>a\<close> that \<open>CLI_CMD(n, os)\<close> initialises.\<close>

definition CLI_CMD :: "nat \<Rightarrow> string option \<Rightarrow> cli_opt list option \<Rightarrow> cli_sub_cmd" where
  "CLI_CMD a n os = \<lparr>addr = a, name = n, opts = os\<rparr>"

definition IS_OPT_END :: "cli_opt \<Rightarrow> bool" where
  "IS_OPT_END opt =
     (a_short opt = 0 \<and> a_long opt = None \<and> tag opt = None \<and> mode opt = 0 \<and> help' opt = None)"

definition IS_CMD_END :: "cli_sub_cmd \<Rightarrow> bool" where
  "IS_CMD_END cmd = (name cmd = None \<and> opts cmd = None)"

text \<open>
  The callback gets the group, the descriptor and the value; what it keeps between
  calls is its state \<open>'u\<close> (the data behind \<open>clip->usr\<close>). It returns its status and
  its new state. \<open>out\<close> is the \<open>FILE *\<close> of the configuration.
\<close>

datatype stream = Stdout | Stderr | Stream nat

record 'u clip =
  flags :: "32 word"
  progname :: "string option"
  header :: "string option"
  footer :: "string option"
  version :: "string option"
  base :: "cli_sub_cmd option"
  cmds :: "cli_sub_cmd list option"
  cb :: "'u \<Rightarrow> cli_sub_cmd option \<Rightarrow> cli_opt option \<Rightarrow> string option \<Rightarrow> int \<times> 'u"
  out :: "stream option"
  index :: int
  live :: "cli_sub_cmd option"

section \<open>Matching engine (clip.c)\<close>

text \<open>
  A result of type \<open>'a option\<close> whose \<open>None\<close> is written \<open>UB\<close> is a run of the C code
  that has no defined result: a NULL pointer is dereferenced or handed to the C
  library as a string, an array is read outside its bounds or a buffer overflows.
\<close>

abbreviation (input) UB :: "'a option" where
  "UB \<equiv> None"

fun find_any_scan :: "cli_opt list \<Rightarrow> cli_opt option" where
  "find_any_scan [] = None"
| "find_any_scan (opt # rest) =
     (if IS_OPT_END opt then None
      else if mode opt AND ARG_ANYK \<noteq> 0 then Some opt
      else find_any_scan rest)"

text \<open>\<open>cli__find_any\<close> reads \<open>cmd->opts\<close> without a NULL test.\<close>

definition cli__find_any :: "cli_sub_cmd option \<Rightarrow> cli_opt option option" where
  "cli__find_any cmd =
     (case cmd of
        None \<Rightarrow> Some None
      | Some c \<Rightarrow> (case opts c of None \<Rightarrow> UB | Some os \<Rightarrow> Some (find_any_scan os)))"

text \<open>\<open>cli__find_cmd\<close> takes \<open>strlen(cmd->name)\<close> of every entry before the end marker.\<close>

fun find_cmd_scan :: "cli_sub_cmd list \<Rightarrow> string \<Rightarrow> cli_sub_cmd option option" where
  "find_cmd_scan [] nm = Some None"
| "find_cmd_scan (cmd # rest) nm =
     (if IS_CMD_END cmd then Some None
      else case name cmd of
        None \<Rightarrow> UB
      | Some c \<Rightarrow>
          if strlen nm = strlen c \<and> memcmp_eq (cstr c) (cstr nm) (strlen nm) then Some (Some cmd)
          else find_cmd_scan rest nm)"

definition cli__find_cmd :: "'u clip \<Rightarrow> string \<Rightarrow> cli_sub_cmd option option" where
  "cli__find_cmd clip nm =
     (case cmds clip of None \<Rightarrow> Some None | Some cs \<Rightarrow> find_cmd_scan cs nm)"

fun find_opt_scan :: "cli_opt list \<Rightarrow> string \<Rightarrow> cli_opt option" where
  "find_opt_scan [] str = None"
| "find_opt_scan (opt # rest) str =
     (if IS_OPT_END opt then None
      else if mode opt AND ARG_ANYK \<noteq> 0 then find_opt_scan rest str
      else if strlen str = 1 \<and> char_int (char_at str 0) = a_short opt then Some opt
      else if strlen str > 1 \<and> a_long opt \<noteq> None then
        (if strlen str = strlen (the (a_long opt))
            \<and> memcmp_eq (cstr str) (cstr (the (a_long opt))) (strlen str)
         then Some opt
         else find_opt_scan rest str)
      else find_opt_scan rest str)"

definition cli__find_opt_0 :: "cli_sub_cmd option \<Rightarrow> string \<Rightarrow> cli_opt option" where
  "cli__find_opt_0 cmd str =
     (case cmd of
        None \<Rightarrow> None
      | Some c \<Rightarrow> (case opts c of None \<Rightarrow> None | Some os \<Rightarrow> find_opt_scan os str))"

text \<open>
  \<open>cli__find_opt\<close> returns the descriptor and, through \<open>whence\<close>, the group it was
  found in. The comparison \<open>cmd != clip->base\<close> is one of pointers: of records with
  their addresses.
\<close>

definition cli__find_opt ::
  "'u clip \<Rightarrow> cli_sub_cmd option \<Rightarrow> string \<Rightarrow> cli_opt option \<times> cli_sub_cmd option" where
  "cli__find_opt clip cmd str =
     (let whence = cmd;
          opt = cli__find_opt_0 cmd str;
          (opt, whence) =
            (if opt = None \<and> cmd \<noteq> base clip
             then (cli__find_opt_0 (base clip) str, base clip)
             else (opt, whence))
      in if opt = None then (None, None) else (opt, whence))"

section \<open>The world outside the configuration\<close>

text \<open>
  \<open>argv\<close> holds the argument arrays, which the parser writes to; \<open>argc\<close> is their
  number. \<open>def_version\<close> is the static descriptor of that name in clip.c, the only one
  of the three default descriptors that is not \<open>const\<close>. \<open>files\<close> maps a path to the
  bytes of the file that \<open>fopen(path, "r")\<close> opens. \<open>printed\<close> is what the library has
  written to each stream. \<open>usr\<close> is the state of the callback and \<open>calls\<close> records the
  arguments of every callback invocation, in order.
\<close>

type_synonym cb_call = "cli_sub_cmd option \<times> cli_opt option \<times> string option"

record 'u world =
  argv :: "string list"
  def_version :: cli_opt
  files :: "string \<Rightarrow> string option"
  printed :: "stream \<Rightarrow> string"
  usr :: 'u
  calls :: "cb_call list"

definition argc :: "'u world \<Rightarrow> int" where
  "argc w = int (length (argv w))"

text \<open>\<open>argv[i]\<close>, defined for \<open>0 \<le> i < argc\<close>.\<close>

definition argv_at :: "'u world \<Rightarrow> int \<Rightarrow> string option" where
  "argv_at w i = (if 0 \<le> i \<and> i < argc w then Some (argv w ! nat i) else UB)"

definition emit :: "stream \<Rightarrow> string \<Rightarrow> 'u world \<Rightarrow> 'u world" where
  "emit s txt w = w\<lparr>printed := (printed w)(s := printed w s @ txt)\<rparr>"

text \<open>\<open>clip->cb(clip, cmd, opt, val)\<close>.\<close>

definition invoke ::
  "'u clip \<Rightarrow> 'u world \<Rightarrow> cli_sub_cmd option \<Rightarrow> cli_opt option \<Rightarrow> string option
     \<Rightarrow> int \<times> 'u world" where
  "invoke clip w cmd opt val =
     (case cb clip (usr w) cmd opt val of
        (rc, u) \<Rightarrow> (rc, w\<lparr>usr := u, calls := calls w @ [(cmd, opt, val)]\<rparr>))"

text \<open>\<open>out = (clip->out != NULL)? clip->out: stderr\<close> in \<open>cli_parse\<close> and \<open>cli_do_file\<close>.\<close>

definition err_sink :: "'u clip \<Rightarrow> stream" where
  "err_sink clip = (case out clip of Some s \<Rightarrow> s | None \<Rightarrow> Stderr)"

text \<open>\<open>out = (clip->out)? clip->out: stdout\<close> in \<open>cli_summary\<close>.\<close>

definition summary_sink :: "'u clip \<Rightarrow> stream" where
  "summary_sink clip = (case out clip of Some s \<Rightarrow> s | None \<Rightarrow> Stdout)"

section \<open>Help and usage renderer (clip.c)\<close>

definition ANSI_END :: string where
  "ANSI_END = ESC # ''[0m''"

definition ANSI_PROG :: string where
  "ANSI_PROG = (ESC # ''[1m'') @ (ESC # ''[1;37m'')"

definition ANSI_SUBTITLE :: string where
  "ANSI_SUBTITLE = (ESC # ''[2m'') @ (ESC # ''[1;37m'')"

definition ANSI_CMD :: string where
  "ANSI_CMD = ESC # ''[1;32m''"

definition ANSI_OPT :: string where
  "ANSI_OPT = ESC # ''[1;34m''"

definition ANSI_ANY :: string where
  "ANSI_ANY = ESC # ''[1;33m''"

definition ANSI_ERR :: string where
  "ANSI_ERR = ESC # ''[0;31m''"

definition def_help_base :: cli_opt where
  "def_help_base = CLI_OPT_SWITCH (char_int CHR ''h'') (Some ''help'') (Some ''Show help message.'')"

definition def_version_init :: cli_opt where
  "def_version_init =
     CLI_OPT_SWITCH (char_int CHR ''v'') (Some ''version'')
       (Some ''Show version and if available, copyright information.'')"

definition def_help_cmds :: cli_opt where
  "def_help_cmds =
     CLI_OPT_SWITCH (char_int CHR ''h'') (Some ''help'')
       (Some (''Show help message. If this option is used along with a sub-command, ''
            @ ''then a help message specific to that sub-command is shown.''))"

text \<open>The text of \<open>fprintf(out, "%s", s)\<close>.\<close>

definition put_s :: "string option \<Rightarrow> string option" where
  "put_s s = (case s of None \<Rightarrow> UB | Some b \<Rightarrow> Some (cstr b))"

definition when_ansi :: "bool \<Rightarrow> string \<Rightarrow> string option" where
  "when_ansi ansi colour = (if ansi then Some colour else None)"

definition cli__puts ::
  "string option \<Rightarrow> string option \<Rightarrow> string option \<Rightarrow> string option \<Rightarrow> nat \<Rightarrow> string option" where
  "cli__puts colour pfx sfx str n =
     (case str of
        None \<Rightarrow> UB
      | Some s \<Rightarrow>
          Some ((case colour of Some c \<Rightarrow> c | None \<Rightarrow> [])
              @ (case pfx of Some p \<Rightarrow> cstr p | None \<Rightarrow> [])
              @ (if n \<noteq> 0 then take n (cstr s) else cstr s)
              @ (case sfx of Some x \<Rightarrow> cstr x | None \<Rightarrow> [])
              @ (if colour \<noteq> None then ANSI_END else [])))"

text \<open>
  The loop of \<open>cli__put_text\<close> over the bytes of \<open>text\<close> from offset \<open>p\<close> on; the
  pointers \<open>last\<close>, \<open>sp\<close> and \<open>nl\<close> are offsets into \<open>text\<close> (\<open>None\<close> is NULL). The
  result is the final \<open>nl\<close> and the text written. At a blank, \<open>last\<close> takes the
  value of \<open>sp\<close> and \<open>sp\<close> that of \<open>p\<close>; a line is cut at \<open>last\<close>, which is still
  NULL when the first blank of the text stands beyond column 78.
\<close>

fun put_text_loop ::
  "string \<Rightarrow> string \<Rightarrow> nat \<Rightarrow> nat option \<Rightarrow> nat option \<Rightarrow> nat \<Rightarrow> string
     \<Rightarrow> (nat \<times> string) option" where
  "put_text_loop text [] p lastp sp nl acc = Some (nl, acc)"
| "put_text_loop text (c # cs) p lastp sp nl acc =
     (if c \<noteq> CHR '' '' \<and> c \<noteq> tab then put_text_loop text cs (p + 1) lastp sp nl acc
      else if p < nl \<or> p - nl > 78 then
        (case sp of
           None \<Rightarrow> UB
         | Some l \<Rightarrow>
             put_text_loop text cs (p + 1) sp (Some p) (l + 1)
               (acc @ ''  ''
                    @ (if l < nl then drop nl text else take (l - nl) (drop nl text))
                    @ [newline]))
      else put_text_loop text cs (p + 1) sp (Some p) nl acc)"

definition cli__put_text :: "string \<Rightarrow> string option" where
  "cli__put_text text =
     (case put_text_loop (cstr text) (cstr text) 0 None None 0 [] of
        None \<Rightarrow> UB
      | Some (nl, acc) \<Rightarrow>
          Some (acc @ (if strlen text > nl then ''  '' @ drop nl (cstr text) @ [newline] else [])))"

definition cli__put_opt :: "bool \<Rightarrow> cli_opt \<Rightarrow> string option" where
  "cli__put_opt is_ansi opt = do {
     line \<leftarrow>
       (if mode opt = ARG_ANYK then do {
          t \<leftarrow> put_s (tag opt);
          Some ((if is_ansi then ANSI_ANY else []) @ t @ ''...''
                @ (if is_ansi then ANSI_END else []))
        }
        else
          Some ((if is_ansi then ANSI_OPT else [])
              @ (if isalnum (a_short opt) then
                   ''-'' @ [char_of (a_short opt)]
                   @ (case tag opt of Some t \<Rightarrow> '' '' @ cstr t | None \<Rightarrow> [])
                   @ (if a_long opt \<noteq> None then '', '' else [])
                 else [])
              @ (case a_long opt of
                   Some l \<Rightarrow>
                     ''--'' @ cstr l @ (case tag opt of Some t \<Rightarrow> ''='' @ cstr t | None \<Rightarrow> [])
                 | None \<Rightarrow> [])
              @ (if is_ansi then ANSI_END else [])));
     body \<leftarrow> (case help' opt of None \<Rightarrow> Some [] | Some h \<Rightarrow> cli__put_text h);
     Some (line @ [newline] @ body)
   }"

text \<open>The listing of sub-commands in \<open>cli_summary\<close> runs until an entry without options.\<close>

fun summary_subs :: "bool \<Rightarrow> cli_sub_cmd list \<Rightarrow> string option" where
  "summary_subs ansi [] = Some []"
| "summary_subs ansi (sub # rest) =
     (if opts sub = None then Some []
      else do {
        t \<leftarrow> cli__puts (when_ansi ansi ANSI_CMD) (Some [tab]) (Some [newline]) (name sub) 0;
        ts \<leftarrow> summary_subs ansi rest;
        Some (t @ ts)
      })"

fun summary_opts :: "bool \<Rightarrow> cli_opt list \<Rightarrow> string option" where
  "summary_opts ansi [] = Some []"
| "summary_opts ansi (opt # rest) =
     (if IS_OPT_END opt then Some []
      else if help' opt = None then summary_opts ansi rest
      else do {
        t \<leftarrow> cli__put_opt ansi opt;
        ts \<leftarrow> summary_opts ansi rest;
        Some (t @ ts)
      })"

text \<open>
  \<open>cli_summary\<close>. The name of the group is copied into a buffer of
  \<open>CLIP_BUFFER_SIZE\<close> bytes behind one blank, with no test for NULL or for its length.
  When automatic version is on and the base group has a short option \<open>v\<close>, the short
  name of the shared descriptor \<open>def_version\<close> is set to 0 before it is printed.
\<close>

definition cli_summary ::
  "'u clip \<Rightarrow> cli_sub_cmd option \<Rightarrow> 'u world \<Rightarrow> (int \<times> 'u world) option" where
  "cli_summary clip cmd0 w = do {
     let cmd = (if cmd0 = None then base clip else cmd0);
     let ansi = (flags clip AND CLIP_FLAG_USE_ANSI \<noteq> 0);
     any \<leftarrow> cli__find_any cmd;
     t1 \<leftarrow> cli__puts (when_ansi ansi ANSI_PROG) None None (progname clip) 0;
     t2 \<leftarrow>
       (if cmd = base clip \<and> cmds clip \<noteq> None
        then cli__puts (when_ansi ansi ANSI_CMD) None None (Some '' [COMMAND]'') 0
        else Some []);
     t3 \<leftarrow>
       (case cmd of
          None \<Rightarrow> Some []
        | Some c \<Rightarrow>
            (case name c of
               None \<Rightarrow> UB
             | Some n \<Rightarrow>
                 if CLIP_BUFFER_SIZE < 1 + strlen n + 1 then UB
                 else cli__puts (when_ansi ansi ANSI_OPT) (Some ('' '' @ cstr n)) None
                        (Some '' [OPTIONS]'') 0));
     t4 \<leftarrow>
       (case any of
          None \<Rightarrow> Some []
        | Some a \<Rightarrow> cli__puts (when_ansi ansi ANSI_ANY) (Some '' '') (Some ''...'') (tag a) 0);
     let t5 = (case header clip of Some h \<Rightarrow> cstr h @ [newline] | None \<Rightarrow> []);
     t6 \<leftarrow>
       (if cmd = base clip \<and> cmds clip \<noteq> None
        then do {
          ts \<leftarrow> summary_subs ansi (the (cmds clip));
          Some ([newline] @ ''Sub-commands:'' @ [newline] @ ts)
        }
        else Some []);
     let has_auto = (flags clip AND CLIP_FLAG_HELP \<noteq> 0 \<or> flags clip AND CLIP_FLAG_VERSION \<noteq> 0);
     t7 \<leftarrow>
       (if has_auto
        then cli__puts (when_ansi ansi ANSI_SUBTITLE) (Some [newline]) (Some [newline])
               (Some ''Default Options:'') 0
        else Some []);
     t8 \<leftarrow>
       (if has_auto \<and> flags clip AND CLIP_FLAG_HELP \<noteq> 0
        then (if cmd = base clip \<and> cmds clip \<noteq> None
              then cli__put_opt ansi def_help_cmds
              else cli__put_opt ansi def_help_base)
        else Some []);
     let w =
       (if has_auto \<and> flags clip AND CLIP_FLAG_VERSION \<noteq> 0
           \<and> cli__find_opt_0 (base clip) ''v'' \<noteq> None
        then w\<lparr>def_version := (def_version w)\<lparr>a_short := 0\<rparr>\<rparr>
        else w);
     t9 \<leftarrow>
       (if has_auto \<and> flags clip AND CLIP_FLAG_VERSION \<noteq> 0
        then cli__put_opt ansi (def_version w)
        else Some []);
     t10 \<leftarrow>
       (case cmd of
          None \<Rightarrow> Some []
        | Some c \<Rightarrow> do {
            t \<leftarrow> cli__puts (when_ansi ansi ANSI_SUBTITLE) (Some [newline]) (Some [newline])
                   (Some (if cmd = base clip then ''Common options:'' else ''Options:'')) 0;
            os \<leftarrow> opts c;
            ts \<leftarrow> summary_opts ansi os;
            Some (t @ ts)
          });
     let t11 =
       (case footer clip of Some f \<Rightarrow> [newline] @ cstr f @ [newline] | None \<Rightarrow> []);
     Some (0, emit (summary_sink clip)
                (''Usage: '' @ t1 @ t2 @ t3 @ t4 @ [newline] @ t5 @ t6 @ t7 @ t8 @ t9 @ t10 @ t11)
                w)
   }"

section \<open>Diagnostics and the argument-file loader (clip.c)\<close>

text \<open>The line that \<open>cli_bad_arg\<close> writes; \<open>t\<close> is its parameter \<open>tag\<close>.\<close>

definition cli_bad_arg :: "32 word \<Rightarrow> int \<Rightarrow> string \<Rightarrow> string \<Rightarrow> string" where
  "cli_bad_arg fl t pfx key =
     cstr pfx @ '' ''
     @ (if fl AND CLIP_FLAG_USE_ANSI \<noteq> 0 then ANSI_ERR else [])
     @ (if t = 3 then ''@'' else if t = 2 then ''--'' else if t = 1 then ''-'' else [])
     @ cstr key
     @ (if fl AND CLIP_FLAG_USE_ANSI \<noteq> 0 then ANSI_END else [])
     @ [newline]"

text \<open>
  How a loop body ends: \<open>Return\<close> leaves the function (\<open>return\<close>, \<open>goto done\<close>),
  \<open>Continue\<close> goes on to the test of the loop. The parser's state is the local \<open>r\<close>,
  the configuration and the world.
\<close>

datatype ('a, 'b) flow = Return 'a | Continue 'b

type_synonym 'u pstate = "int \<times> 'u clip \<times> 'u world"

text \<open>
  \<open>fgets(buffer, size, f)\<close> on the unread bytes of a file: at most \<open>size - 1\<close> bytes,
  up to and including the first newline; NULL at the end of the file. The result is
  the buffer and the bytes left unread.
\<close>

fun fgets_chars :: "nat \<Rightarrow> string \<Rightarrow> string" where
  "fgets_chars 0 f = []"
| "fgets_chars (Suc n) [] = []"
| "fgets_chars (Suc n) (c # f) = (if c = newline then [c] else c # fgets_chars n f)"

definition fgets :: "nat \<Rightarrow> string \<Rightarrow> (string \<times> string) option" where
  "fgets sz f =
     (if f = [] then None
      else Some (fgets_chars (sz - 1) f, drop (length (fgets_chars (sz - 1) f)) f))"

text \<open>
  The body of the loop of \<open>cli_do_file\<close> on one buffer (the POSIX branch of the
  \<open>#if\<close>: only the newline is cut). The callback is invoked whatever the mode of the
  descriptor is.
\<close>

definition cli_do_line ::
  "'u clip \<Rightarrow> 'u world \<Rightarrow> string \<Rightarrow> (int \<times> 'u world, int \<times> 'u world) flow" where
  "cli_do_line clip w buffer0 =
     (let buffer = (case strchr buffer0 newline of Some nl \<Rightarrow> buffer0[nl := NUL] | None \<Rightarrow> buffer0);
          eq = (case strchr buffer CHR ''='' of Some e \<Rightarrow> Some e | None \<Rightarrow> strchr buffer CHR '' '');
          buffer = (case eq of Some e \<Rightarrow> buffer[e := NUL] | None \<Rightarrow> buffer);
          val = (case eq of Some e \<Rightarrow> Some (cstr (drop (e + 1) buffer)) | None \<Rightarrow> None);
          key = buffer;
          (opt, cmd) = cli__find_opt clip (live clip) key
      in if opt = None then
           Return (CLIP_ERR_BAD_ARG,
             emit (err_sink clip)
               (cli_bad_arg (flags clip) (if strlen key = 1 then 1 else 2) ''Invalid option:'' key) w)
         else
           (case invoke clip w cmd opt val of
              (r, w') \<Rightarrow> if r \<noteq> 0 then Return (CLIP_ERR_CB_FAIL, w') else Continue (r, w')))"

function cli_do_file_loop :: "'u clip \<Rightarrow> 'u world \<Rightarrow> string \<Rightarrow> int \<Rightarrow> int \<times> 'u world" where
  "cli_do_file_loop clip w f r =
     (case fgets CLIP_BUFFER_SIZE f of
        None \<Rightarrow> (r, w)
      | Some (buffer, f') \<Rightarrow>
          (case cli_do_line clip w buffer of
             Return x \<Rightarrow> x
           | Continue (r', w') \<Rightarrow> cli_do_file_loop clip w' f' r'))"
  by pat_completeness auto
termination
proof (relation "measure (\<lambda>(clip, w, f, r). length f)")
  fix clip :: "'u clip" and w :: "'u world" and f :: string and r :: int
    and x2 x y x1 x2a and xa :: int and ya
  assume a: "fgets CLIP_BUFFER_SIZE f = Some x2" "(x, y) = x2"
  have ne: "fgets_chars n g \<noteq> []" if "0 < n" "g \<noteq> []" for n g
  proof -
    from that obtain m c cs where "n = Suc m" "g = c # cs"
      by (cases n; cases g) auto
    then show ?thesis by simp
  qed
  from a have "f \<noteq> []" and y: "y = drop (length (fgets_chars (CLIP_BUFFER_SIZE - 1) f)) f"
    by (auto simp: fgets_def split: if_splits)
  moreover from \<open>f \<noteq> []\<close> have "fgets_chars (CLIP_BUFFER_SIZE - 1) f \<noteq> []"
    by (intro ne) (simp_all add: CLIP_BUFFER_SIZE_def)
  ultimately have "length y < length f"
    by (cases f) auto
  then show "((clip, ya, y, xa), clip, w, f, r) \<in> measure (\<lambda>(clip, w, f, r). length f)"
    by simp
qed simp

declare cli_do_file_loop.simps [simp del]

text \<open>
  \<open>cli_do_file(clip, file, n)\<close>: the name is first printed into the line buffer, which
  overflows when it does not fit.
\<close>

definition cli_do_file ::
  "'u clip \<Rightarrow> 'u world \<Rightarrow> string \<Rightarrow> nat \<Rightarrow> (int \<times> 'u world) option" where
  "cli_do_file clip w file n =
     (if CLIP_BUFFER_SIZE < n + 1 then UB
      else
        let buffer = take n (cstr file) in
        case files w buffer of
          None \<Rightarrow>
            Some (CLIP_ERR_BAD_ARG,
              emit (err_sink clip)
                (''Arguments file '' @ [CHR 0x27] @ buffer @ [CHR 0x27] @ '' could not be opened.'') w)
        | Some f \<Rightarrow> Some (cli_do_file_loop clip w f 0))"

section \<open>The parse loop (clip.c, \<open>cli_parse\<close>)\<close>

definition IS_SHORT_OPT :: "string \<Rightarrow> bool" where
  "IS_SHORT_OPT v = (char_at v 0 = CHR ''-'' \<and> isalnum (char_int (char_at v 1)))"

definition IS_LONG_OPT :: "string \<Rightarrow> bool" where
  "IS_LONG_OPT v =
     (char_at v 0 = CHR ''-'' \<and> char_at v 1 = CHR ''-'' \<and> isalnum (char_int (char_at v 2)))"

definition IS_DOUBLE_DASH :: "string \<Rightarrow> bool" where
  "IS_DOUBLE_DASH v = (char_at v 0 = CHR ''-'' \<and> char_at v 1 = CHR ''-'' \<and> char_at v 2 = NUL)"

text \<open>
  One pass through the body of the \<open>do ... while\<close> over a short cluster, entered with
  \<open>arg\<close> and \<open>i\<close>: the character \<open>arg[i]\<close> is looked up and dispatched. The pass
  either leaves \<open>cli_parse\<close> or reaches the test of the loop with a new \<open>arg\<close> and \<open>i\<close>.
\<close>

definition cluster_step ::
  "'u clip \<Rightarrow> 'u world \<Rightarrow> string \<Rightarrow> nat \<Rightarrow> int
     \<Rightarrow> ('u pstate, 'u pstate \<times> string \<times> nat) flow option" where
  "cluster_step clip w arg i0 r =
     (let chr = [char_at arg i0];
          i = i0 + 1;
          (opt, cmd) = cli__find_opt clip (live clip) chr
      in case opt of
           None \<Rightarrow>
             Some (Return (CLIP_ERR_BAD_ARG, clip,
               emit (err_sink clip) (cli_bad_arg (flags clip) 1 ''Invalid option:'' chr) w))
         | Some ov \<Rightarrow>
             if mode ov = 0 then
               (case invoke clip w cmd opt None of
                  (r', w') \<Rightarrow>
                    if r' \<noteq> 0 then Some (Return (CLIP_ERR_CB_FAIL, clip, w'))
                    else Some (Continue ((r', clip, w'), arg, i)))
             else if mode ov AND ARG_REQD \<noteq> 0 then do {
               (val, arg, i, clip) \<leftarrow>
                 (if char_at arg i = NUL then
                    (if index clip < argc w then do {
                       v \<leftarrow> argv_at w (index clip);
                       Some (Some v, v, 0, clip\<lparr>index := index clip + 1\<rparr>)
                     }
                     else Some (None, arg, i, clip))
                  else Some (Some (drop i arg), arg, i, clip));
               (case val of
                  None \<Rightarrow>
                    Some (Return (CLIP_ERR_BAD_ARG, clip,
                      emit (err_sink clip)
                        (cli_bad_arg (flags clip) 1 ''Missing required value for'' chr) w))
                | Some v \<Rightarrow>
                    (case invoke clip w cmd opt (Some (cstr v)) of
                       (r', w') \<Rightarrow>
                         if r' \<noteq> 0 then Some (Return (CLIP_ERR_CB_FAIL, clip, w'))
                         else Some (Continue ((r', clip, w'), arg, i + strlen v))))
             }
             else Some (Continue ((r, clip, w), arg, i)))"

function cli_cluster ::
  "'u clip \<Rightarrow> 'u world \<Rightarrow> string \<Rightarrow> nat \<Rightarrow> int \<Rightarrow> ('u pstate, 'u pstate) flow option" where
  "cli_cluster clip w arg i r =
     (case cluster_step clip w arg i r of
        None \<Rightarrow> UB
      | Some (Return x) \<Rightarrow> Some (Return x)
      | Some (Continue ((r', clip', w'), arg', i')) \<Rightarrow>
          if char_at arg' i' \<noteq> NUL then cli_cluster clip' w' arg' i' r'
          else Some (Continue (r', clip', w')))"
  by pat_completeness auto
termination
proof -
  have nul: "char_at b (k + strlen (drop k b)) = NUL" for b k
  proof (cases "k + strlen (drop k b) < length b")
    case True
    then have "length (takeWhile (\<lambda>c. c \<noteq> NUL) (drop k b)) < length (drop k b)"
      by (simp add: strlen_def cstr_def)
    then have "drop k b ! length (takeWhile (\<lambda>c. c \<noteq> NUL) (drop k b)) = NUL"
      using nth_length_takeWhile by fastforce
    with True show ?thesis
      by (simp add: char_at_def strlen_def cstr_def)
  next
    case False
    then show ?thesis by (simp add: char_at_def)
  qed
  have nul0: "char_at b (strlen b) = NUL" for b
    using nul [of b 0] by simp
  have nulS: "char_at b (Suc (i + strlen (drop (Suc i) b))) = NUL" for b i
    using nul [of b "Suc i"] by simp
  have lt: "i < length b" if "char_at b i \<noteq> NUL" for b i
    using that by (simp add: char_at_def split: if_splits)
  have again: "arg' = arg \<and> i' = i + 1 \<and> i' < length arg"
    if "cluster_step clip w arg i r = Some (Continue ((r', clip', w'), arg', i'))"
      and "char_at arg' i' \<noteq> NUL"
    for clip :: "'u clip" and w arg i r r' clip' w' arg' i'
    using that
    by (auto simp: cluster_step_def Let_def nulS nul0
        split: prod.splits option.splits if_splits bind_splits dest: lt)
  show ?thesis
    by (relation "measure (\<lambda>(clip, w, arg, i, r). length arg - i)") (auto dest!: again)
qed

declare cli_cluster.simps [simp del]

text \<open>
  A long option. \<open>a\<close> is the place of \<open>arg\<close> in \<open>argv\<close>: the token is read as
  \<open>argv[clip->index++]\<close>, and the writes through \<open>eq\<close> go to that array.
\<close>

definition cli_parse_long ::
  "'u clip \<Rightarrow> 'u world \<Rightarrow> nat \<Rightarrow> int \<Rightarrow> ('u pstate, 'u pstate) flow option" where
  "cli_parse_long clip w a r =
     (let eq = strchr (drop 2 (argv w ! a)) CHR ''='';
          w = (case eq of
                 Some e \<Rightarrow> w\<lparr>argv := (argv w)[a := (argv w ! a)[2 + e := NUL]]\<rparr>
               | None \<Rightarrow> w);
          key = drop 2 (argv w ! a);
          restore = (\<lambda>w. case eq of
                 Some e \<Rightarrow> w\<lparr>argv := (argv w)[a := (argv w ! a)[2 + e := CHR ''='']]\<rparr>
               | None \<Rightarrow> w);
          (opt, cmd) = cli__find_opt clip (live clip) key
      in case opt of
           None \<Rightarrow>
             Some (Return (CLIP_ERR_BAD_ARG, clip,
               emit (err_sink clip) (cli_bad_arg (flags clip) 2 ''Invalid option:'' key) w))
         | Some ov \<Rightarrow>
             if mode ov = 0 then
               (case invoke clip w cmd opt None of
                  (r', w') \<Rightarrow>
                    if r' \<noteq> 0 then Some (Return (CLIP_ERR_CB_FAIL, clip, w'))
                    else Some (Continue (r', clip, restore w')))
             else if mode ov AND ARG_REQD \<noteq> 0 then do {
               (val, clip) \<leftarrow>
                 (case eq of
                    Some e \<Rightarrow> Some (Some (drop (2 + e + 1) (argv w ! a)), clip)
                  | None \<Rightarrow>
                      if index clip < argc w then do {
                        v \<leftarrow> argv_at w (index clip);
                        Some (Some v, clip\<lparr>index := index clip + 1\<rparr>)
                      }
                      else Some (None, clip));
               (case val of
                  None \<Rightarrow>
                    Some (Return (CLIP_ERR_BAD_ARG, clip,
                      emit (err_sink clip)
                        (cli_bad_arg (flags clip) 2 ''Missing required value for'' key) w))
                | Some v \<Rightarrow>
                    (case invoke clip w cmd opt (Some (cstr v)) of
                       (r', w') \<Rightarrow>
                         if r' \<noteq> 0 then Some (Return (CLIP_ERR_CB_FAIL, clip, w'))
                         else Some (Continue (r', clip, restore w'))))
             }
             else Some (Continue (r, clip, restore w)))"

text \<open>The body of the main \<open>while\<close> loop after \<open>arg = argv[clip->index++]\<close>.\<close>

definition cli_token ::
  "'u clip \<Rightarrow> 'u world \<Rightarrow> nat \<Rightarrow> int \<Rightarrow> ('u pstate, 'u pstate) flow option" where
  "cli_token clip w a r =
     (let arg = argv w ! a in
      if IS_SHORT_OPT arg then cli_cluster clip w arg 1 r
      else if IS_LONG_OPT arg then cli_parse_long clip w a r
      else if char_at arg 0 = CHR ''@'' then
        (case cli_do_file clip w (drop 1 arg) (strlen (drop 1 arg)) of
           None \<Rightarrow> UB
         | Some (r', w') \<Rightarrow>
             if r' \<noteq> 0 then Some (Return (r', clip, w')) else Some (Continue (r', clip, w')))
      else if IS_DOUBLE_DASH arg then Some (Return (r, clip, w))
      else do {
        opt \<leftarrow> cli__find_any (live clip);
        (case opt of
           None \<Rightarrow>
             Some (Return (CLIP_ERR_BAD_ARG, clip,
               emit (err_sink clip) (cli_bad_arg (flags clip) 0 ''Unrecognised option:'' arg) w))
         | Some ov \<Rightarrow>
             (case invoke clip w (live clip) opt (Some (cstr arg)) of
                (r', w') \<Rightarrow>
                  if r' \<noteq> 0 then Some (Return (CLIP_ERR_CB_FAIL, clip, w'))
                  else Some (Continue (r', clip, w'))))
      })"

function cli_loop :: "'u clip \<Rightarrow> 'u world \<Rightarrow> int \<Rightarrow> 'u pstate option" where
  "cli_loop clip w r =
     (if index clip < argc w then
        (if index clip < 0 then UB
         else
           (case cli_token (clip\<lparr>index := index clip + 1\<rparr>) w (nat (index clip)) r of
              None \<Rightarrow> UB
            | Some (Return x) \<Rightarrow> Some x
            | Some (Continue (r', clip', w')) \<Rightarrow> cli_loop clip' w' r'))
      else Some (r, clip, w))"
  by pat_completeness auto
termination
proof -
  have inv: "argv w' = argv w" if "invoke clip w cmd opt val = (r', w')"
    for clip :: "'u clip" and w cmd opt val r' w'
    using that by (auto simp: invoke_def split: prod.splits)
  have dline: "argv w' = argv w"
    if "cli_do_line clip w b = Continue (r', w') \<or> cli_do_line clip w b = Return (r', w')"
    for clip :: "'u clip" and w b r' w'
    using that
    by (auto simp: cli_do_line_def Let_def emit_def split: prod.splits if_splits dest: inv)
  have floop: "argv w' = argv w" if "cli_do_file_loop clip w f r = (r', w')"
    for clip :: "'u clip" and w f r r' w'
    using that
  proof (induction clip w f r rule: cli_do_file_loop.induct)
    case (1 clip w f r)
    show ?case
    proof (cases "fgets CLIP_BUFFER_SIZE f")
      case None
      with "1.prems" show ?thesis by (simp add: cli_do_file_loop.simps)
    next
      case (Some bf)
      obtain b f' where bf: "bf = (b, f')" by (cases bf)
      show ?thesis
      proof (cases "cli_do_line clip w b")
        case (Return x)
        with "1.prems" Some bf show ?thesis
          by (cases x) (auto simp: cli_do_file_loop.simps dest: dline [OF disjI2])
      next
        case (Continue y)
        obtain r1 w1 where y: "y = (r1, w1)" by (cases y)
        from Continue y have "argv w1 = argv w" by (auto dest: dline [OF disjI1])
        moreover from "1.prems" Some bf Continue y
        have "cli_do_file_loop clip w1 f' r1 = (r', w')"
          by (simp add: cli_do_file_loop.simps)
        then have "argv w' = argv w1"
          using "1.IH" [OF Some bf [symmetric] Continue y [symmetric]] by simp
        ultimately show ?thesis by simp
      qed
    qed
  qed
  have step: "index clip \<le> index clip' \<and> argv w' = argv w"
    if "cluster_step clip w arg i r = Some (Continue ((r', clip', w'), arg', i'))"
    for clip :: "'u clip" and w arg i r r' clip' w' arg' i'
    using that
    by (auto simp: cluster_step_def Let_def
        split: prod.splits option.splits if_splits bind_splits dest: inv)
  have cluster: "index clip \<le> index clip' \<and> argv w' = argv w"
    if "cli_cluster clip w arg i r = Some (Continue (r', clip', w'))"
    for clip :: "'u clip" and w arg i r r' clip' w'
    using that
  proof (induction clip w arg i r rule: cli_cluster.induct)
    case (1 clip w arg i r)
    from "1.prems" obtain r1 clip1 w1 arg1 i1 where
      st: "cluster_step clip w arg i r = Some (Continue ((r1, clip1, w1), arg1, i1))"
      by (auto simp: cli_cluster.simps [of clip w arg i r] split: option.splits flow.splits)
    note m = step [OF st]
    show ?case
    proof (cases "char_at arg1 i1 \<noteq> NUL")
      case True
      with "1.prems" st have "cli_cluster clip1 w1 arg1 i1 r1 = Some (Continue (r', clip', w'))"
        by (simp add: cli_cluster.simps [of clip w arg i r])
      from "1.IH" [OF st refl refl refl refl refl True this] m show ?thesis by simp
    next
      case False
      with "1.prems" st m show ?thesis
        by (simp add: cli_cluster.simps [of clip w arg i r])
    qed
  qed
  have plong: "index clip \<le> index clip' \<and> length (argv w') = length (argv w)"
    if "cli_parse_long clip w a r = Some (Continue (r', clip', w'))"
    for clip :: "'u clip" and w a r r' clip' w'
    using that
    by (auto simp: cli_parse_long_def Let_def
        split: prod.splits option.splits if_splits bind_splits dest!: inv)
  have tok: "index clip \<le> index clip' \<and> length (argv w') = length (argv w)"
    if "cli_token clip w a r = Some (Continue (r', clip', w'))"
    for clip :: "'u clip" and w a r r' clip' w'
    using that
    by (auto simp: cli_token_def Let_def cli_do_file_def emit_def
        split: prod.splits option.splits if_splits bind_splits
        dest!: inv cluster plong floop)
  show ?thesis
    by (relation "measure (\<lambda>(clip, w, r). nat (argc w - index clip))")
       (auto simp: argc_def dest!: tok)
qed

declare cli_loop.simps [simp del]

text \<open>
  The pre-scan for automatic help and version. \<open>show_help\<close> and \<open>show_version\<close> are
  the two values of the local \<open>show\<close> for one argument.
\<close>

definition show_help :: "'u clip \<Rightarrow> string \<Rightarrow> bool" where
  "show_help clip arg =
     (let show0 =
            (char_at arg 0 = CHR ''-'' \<and> char_at arg 1 = CHR ''h''
             \<and> cli__find_opt_0 (base clip) ''h'' = None);
          show1 =
            (if \<not> show0
             then strlen arg > 6 \<and> memcmp_eq arg ''--help'' 6
                  \<and> cli__find_opt_0 (base clip) ''help'' = None
             else show0)
      in show1 \<and> flags clip AND CLIP_FLAG_HELP \<noteq> 0)"

definition show_version :: "'u clip \<Rightarrow> string \<Rightarrow> bool" where
  "show_version clip arg =
     (let show0 =
            (char_at arg 0 = CHR ''-'' \<and> char_at arg 1 = CHR ''v''
             \<and> cli__find_opt_0 (base clip) ''v'' = None);
          show1 =
            (if \<not> show0
             then strlen arg \<ge> 9 \<and> memcmp_eq arg ''--version'' 9
                  \<and> cli__find_opt_0 (base clip) ''version'' = None
             else show0)
      in show1 \<and> (flags clip AND CLIP_FLAG_VERSION \<noteq> 0 \<and> version clip \<noteq> None))"

text \<open>The line printed for automatic version.\<close>

definition version_text :: "'u clip \<Rightarrow> string option" where
  "version_text clip = do {
     p \<leftarrow> put_s (progname clip);
     v \<leftarrow> put_s (version clip);
     Some (if flags clip AND CLIP_FLAG_USE_ANSI \<noteq> 0
           then ANSI_PROG @ p @ ANSI_END @ '' '' @ v @ [newline]
           else p @ '' '' @ v @ [newline])
   }"

text \<open>The \<open>for\<close> loop over \<open>argv[clip->index .. argc - 1]\<close>, given as a list.\<close>

fun cli_prescan ::
  "'u clip \<Rightarrow> 'u world \<Rightarrow> string list \<Rightarrow> ('u pstate, unit) flow option" where
  "cli_prescan clip w [] = Some (Continue ())"
| "cli_prescan clip w (arg # rest) =
     (if show_help clip arg then do {
        (x, w') \<leftarrow> cli_summary clip (live clip) w;
        Some (Return (CLIP_ERR_HELP, clip, w'))
      }
      else if show_version clip arg then do {
        t \<leftarrow> version_text clip;
        Some (Return (CLIP_ERR_HELP, clip, emit (err_sink clip) t w))
      }
      else cli_prescan clip w rest)"

text \<open>
  Sub-command detection, entered with \<open>clip->index\<close> at the first token: the active
  group becomes the base group and, when the token starts with a letter or a digit and
  names a registered sub-command, that sub-command. The callback is not invoked here.
\<close>

definition cli_subcmd :: "'u clip \<Rightarrow> 'u world \<Rightarrow> 'u clip option" where
  "cli_subcmd clip w = do {
     let clip = clip\<lparr>live := base clip\<rparr>;
     arg \<leftarrow> argv_at w (index clip);
     (if isalnum (char_int (char_at arg 0)) then
        (if cmds clip \<noteq> None then do {
           cmd \<leftarrow> cli__find_cmd clip arg;
           Some (if cmd \<noteq> None then clip\<lparr>live := cmd, index := index clip + 1\<rparr> else clip)
         }
         else Some clip)
      else Some clip)
   }"

text \<open>
  \<open>cli_parse(clip, argc, argv)\<close>, for a \<open>clip\<close> that is not NULL. The result is the
  value returned, the configuration and the world after the call.
\<close>

definition cli_parse :: "'u clip \<Rightarrow> 'u world \<Rightarrow> 'u pstate option" where
  "cli_parse clip w =
     (if index clip \<noteq> 0 then Some (CLIP_ERR_INVALID, clip, w)
      else
        let clip = clip\<lparr>index := 0\<rparr> in
        if argc w > 1 then do {
          clip \<leftarrow> cli_subcmd (clip\<lparr>index := index clip + 1\<rparr>) w;
          pre \<leftarrow> cli_prescan clip w (drop (nat (index clip)) (argv w));
          (case pre of
             Return x \<Rightarrow> Some x
           | Continue u \<Rightarrow> cli_loop clip w 0)
        }
        else Some (CLIP_ERR_OK, clip, w))"

text \<open>
  Where a parse stands. \<open>cli_rounds n\<close> runs the main loop for \<open>n\<close> rounds: it gives
  \<open>Continue\<close> with the state at the test of the loop when each of the rounds went
  through its token and came back to the test, and \<open>Return\<close> when the loop was left
  before. \<open>after_rounds n clip w\<close> is that state for the call \<open>cli_parse(clip, ...)\<close> in
  the world \<open>w\<close>: the value of \<open>r\<close>, the configuration and the world; there is none when
  the call does not get that far (the guard, the pre-scan or one of the rounds ends
  it).
\<close>

fun cli_rounds ::
  "nat \<Rightarrow> 'u clip \<Rightarrow> 'u world \<Rightarrow> int \<Rightarrow> ('u pstate, 'u pstate) flow option" where
  "cli_rounds 0 clip w r = Some (Continue (r, clip, w))"
| "cli_rounds (Suc n) clip w r =
     (if index clip < argc w then
        (if index clip < 0 then UB
         else
           (case cli_token (clip\<lparr>index := index clip + 1\<rparr>) w (nat (index clip)) r of
              None \<Rightarrow> UB
            | Some (Return x) \<Rightarrow> Some (Return x)
            | Some (Continue (r', clip', w')) \<Rightarrow> cli_rounds n clip' w' r'))
      else Some (Return (r, clip, w)))"

definition after_rounds :: "nat \<Rightarrow> 'u clip \<Rightarrow> 'u world \<Rightarrow> 'u pstate option" where
  "after_rounds n clip w =
     (if index clip = 0 \<and> argc w > 1 then
        (case cli_subcmd (clip\<lparr>index := 1\<rparr>) w of
           None \<Rightarrow> None
         | Some c1 \<Rightarrow>
             (case cli_prescan c1 w (drop (nat (index c1)) (argv w)) of
                Some (Continue u) \<Rightarrow>
                  (case cli_rounds n c1 w 0 of
                     Some (Continue s) \<Rightarrow> Some s
                   | Some (Return x) \<Rightarrow> None
                   | None \<Rightarrow> None)
              | Some (Return x) \<Rightarrow> None
              | None \<Rightarrow> None))
      else None)"

text \<open>
  What the caller sees of a parse: the value returned, the invocations of the callback
  and the state of the callback.
\<close>

definition observed :: "'u pstate option \<Rightarrow> (int \<times> cb_call list \<times> 'u) option" where
  "observed x = map_option (\<lambda>(rv, c, w). (rv, calls w, usr w)) x"

text \<open>
  What a parse leaves of the tables of the configuration, and of the shared descriptor
  \<open>def_version\<close>.
\<close>

definition tables_of :: "'u pstate option \<Rightarrow> (cli_sub_cmd option \<times> cli_sub_cmd list option) option" where
  "tables_of x = map_option (\<lambda>(rv, c, w). (base c, cmds c)) x"

definition shared_version :: "'u pstate option \<Rightarrow> cli_opt option" where
  "shared_version x = map_option (\<lambda>(rv, c, w). def_version w) x"

section \<open>The split of a line of an argument file\<close>

text \<open>
  The split of a line as the specification words it: the key ends at the first \<open>=\<close>
  if there is one, else at the first space, and the value is what follows the
  separator; a line without a separator is a key without a value.
\<close>

definition spec_split_line :: "string \<Rightarrow> string \<times> string option" where
  "spec_split_line s =
     (if CHR ''='' \<in> set s then
        (takeWhile (\<lambda>c. c \<noteq> CHR ''='') s, Some (drop 1 (dropWhile (\<lambda>c. c \<noteq> CHR ''='') s)))
      else if CHR '' '' \<in> set s then
        (takeWhile (\<lambda>c. c \<noteq> CHR '' '') s, Some (drop 1 (dropWhile (\<lambda>c. c \<noteq> CHR '' '') s)))
      else (s, None))"

section \<open>Example configurations\<close>

text \<open>
  A callback that counts its invocations and rejects the one numbered \<open>k\<close> (counting
  from 0); \<open>accept_all\<close> never rejects.
\<close>

definition reject_at :: "nat \<Rightarrow> nat \<Rightarrow> cli_sub_cmd option \<Rightarrow> cli_opt option \<Rightarrow> string option \<Rightarrow> int \<times> nat" where
  "reject_at k u cmd opt val = (if u = k then 1 else 0, u + 1)"

definition accept_all :: "nat \<Rightarrow> cli_sub_cmd option \<Rightarrow> cli_opt option \<Rightarrow> string option \<Rightarrow> int \<times> nat" where
  "accept_all u cmd opt val = (0, u + 1)"

definition ex_world :: "string list \<Rightarrow> nat world" where
  "ex_world args =
     \<lparr>argv = args, def_version = def_version_init, files = (\<lambda>path. None),
      printed = (\<lambda>s. []), usr = 0, calls = []\<rparr>"

text \<open>The sub-command \<open>install\<close> with a catch-all tagged \<open>PACKAGE\<close>, over an empty base group.\<close>

definition package_opt :: cli_opt where
  "package_opt = CLI_OPT_NARGS (Some ''PACKAGE'') (Some ''Packages to install.'')"

definition install_cmd :: cli_sub_cmd where
  "install_cmd = CLI_CMD 2 (Some ''install'') (Some [package_opt])"

definition install_clip :: "nat clip" where
  "install_clip =
     \<lparr>flags = 0, progname = Some ''pip'', header = None, footer = None, version = None,
      base = Some (CLI_CMD 1 None (Some [])), cmds = Some [install_cmd],
      cb = accept_all, out = None, index = 0, live = None\<rparr>"

text \<open>A base group with \<open>-v/--verbose\<close> (a switch) and \<open>-f/--file\<close> (with a value).\<close>

definition verbose_opt :: cli_opt where
  "verbose_opt = CLI_OPT_SWITCH (char_int CHR ''v'') (Some ''verbose'') (Some ''Give more output.'')"

definition file_opt :: cli_opt where
  "file_opt =
     CLI_OPT_VALUE (char_int CHR ''f'') (Some ''file'') (Some ''PATH'') (Some ''Read this file.'')"

definition vf_clip :: "nat clip" where
  "vf_clip =
     \<lparr>flags = 0, progname = Some ''prog'', header = None, footer = None, version = None,
      base = Some (CLI_CMD 1 None (Some [verbose_opt, file_opt])), cmds = None,
      cb = accept_all, out = None, index = 0, live = None\<rparr>"

text \<open>A base group with the switches \<open>-a\<close> and \<open>-b\<close> and the value-required \<open>-c\<close>.\<close>

definition abc_clip :: "nat clip" where
  "abc_clip =
     \<lparr>flags = 0, progname = Some ''prog'', header = None, footer = None, version = None,
      base = Some (CLI_CMD 1 None (Some
        [CLI_OPT_SWITCH (char_int CHR ''a'') None (Some ''First switch.''),
         CLI_OPT_SWITCH (char_int CHR ''b'') None (Some ''Second switch.''),
         CLI_OPT_VALUE (char_int CHR ''c'') None (Some ''T'') (Some ''Takes a value.'')])),
      cmds = None, cb = accept_all, out = None, index = 0, live = None\<rparr>"

text \<open>
  The base group of \<open>vf_clip\<close> with automatic version switched on and a version string.
\<close>

definition ver_clip :: "nat clip" where
  "ver_clip = vf_clip\<lparr>flags := CLIP_FLAG_VERSION, version := Some ''1.0''\<rparr>"

text \<open>
  The configuration \<open>install_clip\<close> with automatic help, and with automatic help and
  version.
\<close>

definition help_clip :: "nat clip" where
  "help_clip = install_clip\<lparr>flags := CLIP_FLAG_HELP\<rparr>"

definition auto_clip :: "nat clip" where
  "auto_clip =
     install_clip\<lparr>flags := CLIP_FLAG_HELP OR CLIP_FLAG_VERSION, version := Some ''1.0''\<rparr>"

text \<open>
  The base group of \<open>vf_clip\<close> with the sub-command \<open>install\<close>, automatic help and
  automatic version.
\<close>

definition hv_clip :: "nat clip" where
  "hv_clip =
     vf_clip\<lparr>flags := CLIP_FLAG_HELP OR CLIP_FLAG_VERSION, version := Some ''1.0'',
       cmds := Some [install_cmd]\<rparr>"

text \<open>A world in which one file can be opened.\<close>

definition file_world :: "string list \<Rightarrow> string \<Rightarrow> string \<Rightarrow> nat world" where
  "file_world args path content =
     (ex_world args)\<lparr>files := (\<lambda>p. if p = path then Some content else None)\<rparr>"

section \<open>Evaluation\<close>

lemmas c_string_defs =
  NUL_def newline_def tab_def ESC_def cstr_def strlen_def char_at_def strchr_def memcmp_eq_def
  char_int_def isalnum_def

lemmas clip_h_defs =
  ARG_REQD_def ARG_ANYK_def CLIP_BUFFER_SIZE_def CLIP_ERR_HELP_def CLIP_ERR_OK_def
  CLIP_ERR_INVALID_def CLIP_ERR_CB_FAIL_def CLIP_ERR_BAD_SUBCMD_def CLIP_ERR_BAD_ARG_def
  CLIP_FLAG_HELP_def CLIP_FLAG_VERSION_def CLIP_FLAG_USE_ANSI_def CLI_OPT_SWITCH_def
  CLI_OPT_VALUE_def CLI_OPT_NARGS_def CLI_CMD_def IS_OPT_END_def IS_CMD_END_def

lemmas parse_defs =
  cli__find_any_def cli__find_cmd_def cli__find_opt_0_def cli__find_opt_def argc_def
  argv_at_def emit_def invoke_def err_sink_def summary_sink_def cli_bad_arg_def
  IS_SHORT_OPT_def IS_LONG_OPT_def IS_DOUBLE_DASH_def cluster_step_def cli_cluster.simps
  cli_parse_long_def cli_token_def cli_loop.simps show_help_def show_version_def
  version_text_def put_s_def cli_subcmd_def cli_parse_def after_rounds_def Let_def

lemmas example_defs =
  reject_at_def accept_all_def ex_world_def package_opt_def install_cmd_def install_clip_def
  verbose_opt_def file_opt_def vf_clip_def abc_clip_def file_world_def
  ver_clip_def help_clip_def auto_clip_def hv_clip_def

lemmas render_defs =
  cli_summary_def cli__puts_def when_ansi_def cli__put_text_def cli__put_opt_def
  def_help_base_def def_help_cmds_def def_version_init_def

section \<open>Facts about C strings and the matching engine\<close>

lemma cstr_idem [simp]: "cstr (cstr b) = cstr b"
  by (simp add: cstr_def)

lemma strlen_cstr [simp]: "strlen (cstr b) = strlen b"
  by (simp add: strlen_def)

lemma char_at_cstr_0: "strlen b = 1 \<Longrightarrow> char_at (cstr b) 0 = char_at b 0"
  by (cases b) (auto simp: strlen_def cstr_def char_at_def split: if_splits)

lemma find_opt_scan_cstr: "find_opt_scan os (cstr b) = find_opt_scan os b"
proof (induction os)
  case Nil
  then show ?case by simp
next
  case (Cons opt os)
  show ?case
  proof (cases "IS_OPT_END opt")
    case True
    then show ?thesis by simp
  next
    case ne: False
    show ?thesis
    proof (cases "mode opt AND ARG_ANYK \<noteq> 0")
      case True
      with ne Cons show ?thesis by simp
    next
      case na: False
      show ?thesis
      proof (cases "strlen b = 1")
        case True
        with ne na Cons show ?thesis
          by (cases "a_long opt") (auto simp: char_at_cstr_0)
      next
        case False
        with ne na Cons show ?thesis
          by (cases "a_long opt") auto
      qed
    qed
  qed
qed

lemma NUL_notin_cstr [simp]: "NUL \<notin> set (cstr b)"
  by (auto simp: cstr_def dest: set_takeWhileD)

lemma cstr_no_NUL: "NUL \<notin> set b \<Longrightarrow> cstr b = b"
  by (auto simp: cstr_def)

lemma find_opt_0_cstr: "cli__find_opt_0 g (cstr b) = cli__find_opt_0 g b"
  by (simp add: cli__find_opt_0_def find_opt_scan_cstr split: option.splits)

lemma cli__find_opt_eq:
  "cli__find_opt clip g s =
     (case cli__find_opt_0 g s of
        Some ov \<Rightarrow> (Some ov, g)
      | None \<Rightarrow>
          if g \<noteq> base clip then
            (case cli__find_opt_0 (base clip) s of
               Some ov \<Rightarrow> (Some ov, base clip)
             | None \<Rightarrow> (None, None))
          else (None, None))"
  by (auto simp: cli__find_opt_def Let_def split: option.splits)

lemma find_opt_cstr: "cli__find_opt clip g (cstr b) = cli__find_opt clip g b"
  by (simp add: cli__find_opt_eq find_opt_0_cstr split: option.splits)

lemma find_opt_cong: "cstr b = cstr b' \<Longrightarrow> cli__find_opt clip g b = cli__find_opt clip g b'"
  using find_opt_cstr [of clip g b] find_opt_cstr [of clip g b'] by simp

lemma bad_arg_cong: "cstr b = cstr b' \<Longrightarrow> cli_bad_arg fl t pfx b = cli_bad_arg fl t pfx b'"
  by (simp add: cli_bad_arg_def)

lemma takeWhile_update:
  "e < length (takeWhile P t) \<Longrightarrow> \<not> P x \<Longrightarrow> takeWhile P (t[e := x]) = take e t"
proof (induction t arbitrary: e)
  case Nil
  then show ?case by simp
next
  case (Cons c t)
  then show ?case by (cases e) (auto split: if_splits)
qed

lemma takeWhile_stops:
  "x \<in> set xs \<Longrightarrow> \<not> P x \<Longrightarrow>
   length (takeWhile P xs) < length xs \<and> \<not> P (xs ! length (takeWhile P xs))"
proof -
  assume x: "x \<in> set xs" "\<not> P x"
  have "length (takeWhile P xs) \<noteq> length xs"
  proof
    assume "length (takeWhile P xs) = length xs"
    then have "takeWhile P xs = xs"
      using takeWhile_eq_take [of P xs] by simp
    with x show False by (simp add: takeWhile_eq_all_conv)
  qed
  with length_takeWhile_le [of P xs] have "length (takeWhile P xs) < length xs" by simp
  then show ?thesis by (simp add: nth_length_takeWhile)
qed

lemma strchr_Some:
  "strchr b c = Some e \<Longrightarrow>
   e < strlen b \<and> e = length (takeWhile (\<lambda>d. d \<noteq> c) (cstr b)) \<and> cstr b ! e = c"
proof -
  assume a: "strchr b c = Some e"
  then have c: "c \<in> set (cstr b)" and e: "e = length (takeWhile (\<lambda>d. d \<noteq> c) (cstr b))"
    by (simp_all add: strchr_def split: if_splits)
  from takeWhile_stops [OF c, of "\<lambda>d. d \<noteq> c"]
  have "e < length (cstr b)" "cstr b ! e = c"
    unfolding e by simp_all
  with e show ?thesis by (simp add: strlen_def)
qed

lemma strchr_None: "strchr b c = None \<Longrightarrow> takeWhile (\<lambda>d. d \<noteq> c) (cstr b) = cstr b"
  by (auto simp: strchr_def split: if_splits)

lemma cstr_take: "cstr b = take (strlen b) b"
  unfolding cstr_def strlen_def by (rule takeWhile_eq_take)

lemma take_takeWhile_cstr:
  assumes e: "e = length (takeWhile Q (cstr b))"
  shows "take e b = takeWhile Q (cstr b)"
proof -
  have "takeWhile Q (cstr b) = take e (cstr b)"
    unfolding e by (rule takeWhile_eq_take)
  also have "\<dots> = take e (take (strlen b) b)"
    by (subst cstr_take) (rule refl)
  also have "e \<le> strlen b"
    unfolding e strlen_def by (rule length_takeWhile_le)
  then have "take e (take (strlen b) b) = take e b"
    by (simp add: min_def)
  finally show ?thesis by simp
qed

text \<open>Writing NUL over the first \<open>c\<close> of a string cuts it there.\<close>

lemma cstr_cut:
  assumes "strchr b c = Some e"
  shows "cstr (b[e := NUL]) = takeWhile (\<lambda>d. d \<noteq> c) (cstr b)"
proof -
  from strchr_Some [OF assms] have e: "e < strlen b" "e = length (takeWhile (\<lambda>d. d \<noteq> c) (cstr b))"
    by simp_all
  from e(1) have "cstr (b[e := NUL]) = take e b"
    unfolding cstr_def strlen_def by (intro takeWhile_update) simp_all
  with take_takeWhile_cstr [OF e(2)] show ?thesis by simp
qed

lemma cstr_after_cut: "cstr (drop (Suc e) (b[e := x])) = cstr (drop (Suc e) b)"
  by (simp add: drop_update_cancel)

section \<open>Facts about the parse loop\<close>

lemma invoke_index [simp]: "invoke (clip\<lparr>index := i\<rparr>) w g opt v = invoke clip w g opt v"
  by (simp add: invoke_def)

lemma err_sink_index [simp]: "err_sink (clip\<lparr>index := i\<rparr>) = err_sink clip"
  by (simp add: err_sink_def)

lemma find_opt_index [simp]:
  "cli__find_opt (clip\<lparr>index := i\<rparr>) g s = cli__find_opt clip g s"
  by (auto simp: cli__find_opt_def Let_def)

lemma invoke_frame:
  "invoke clip w g opt v = (rc, w') \<Longrightarrow>
   calls w' = calls w @ [(g, opt, v)] \<and> argv w' = argv w \<and> def_version w' = def_version w
   \<and> printed w' = printed w \<and> files w' = files w"
  by (auto simp: invoke_def split: prod.splits)


lemma cstr_takeWhile_cstr [simp]: "cstr (takeWhile P (cstr b)) = takeWhile P (cstr b)"
proof -
  have "NUL \<notin> set (takeWhile P (cstr b))"
    using NUL_notin_cstr [of b] by (auto dest: set_takeWhileD)
  then show ?thesis by (rule cstr_no_NUL)
qed

lemma invoke_argv_update:
  "invoke clip (w\<lparr>argv := x\<rparr>) g opt v =
     (case invoke clip w g opt v of (rc, w') \<Rightarrow> (rc, w'\<lparr>argv := x\<rparr>))"
  by (simp add: invoke_def split: prod.splits)

text \<open>What \<open>cli_parse_long\<close> does, with the writes to the argument made explicit.\<close>

lemma strchr_nth:
  assumes "strchr b c = Some e"
  shows "e < length b \<and> b ! e = c"
proof -
  from strchr_Some [OF assms] have e: "e < strlen b" "cstr b ! e = c" by blast+
  have "strlen b \<le> length b"
    unfolding strlen_def cstr_def by (rule length_takeWhile_le)
  moreover have "cstr b ! e = b ! e"
    using e(1) unfolding cstr_def strlen_def by (rule takeWhile_nth)
  ultimately show ?thesis using e by simp
qed

lemma cut_restore:
  assumes "a < length (argv w)" and "strchr (drop 2 (argv w ! a)) CHR ''='' = Some e"
    and "argv w' = argv w"
  shows "(w'\<lparr>argv := (argv w)[a := (argv w ! a)[2 + e := NUL]]\<rparr>)
           \<lparr>argv := ((argv w)[a := (argv w ! a)[2 + e := NUL]])
                     [a := ((argv w)[a := (argv w ! a)[2 + e := NUL]] ! a)[2 + e := CHR ''='']]\<rparr>
         = w'"
proof -
  from strchr_nth [OF assms(2)]
  have "e < length (drop 2 (argv w ! a))" and "drop 2 (argv w ! a) ! e = CHR ''=''"
    by blast+
  then have "(argv w ! a) ! (2 + e) = CHR ''=''"
    by (simp add: nth_drop)
  then have "((argv w ! a)[2 + e := NUL])[2 + e := CHR ''='']
      = (argv w ! a)[2 + e := (argv w ! a) ! (2 + e)]"
    by simp
  also have "\<dots> = argv w ! a"
    by (rule list_update_id)
  finally show ?thesis using assms(1,3) by simp
qed

lemma long_key:
  assumes "strchr (drop 2 arg) CHR ''='' = Some e"
  shows "cstr (drop 2 (arg[2 + e := NUL])) = takeWhile (\<lambda>c. c \<noteq> CHR ''='') (cstr (drop 2 arg))"
proof -
  have "drop 2 (arg[2 + e := NUL]) = (drop 2 arg)[e := NUL]"
    by (simp add: drop_update_swap)
  with cstr_cut [OF assms] show ?thesis by simp
qed

lemma long_val: "cstr (drop (2 + e + 1) (arg[2 + e := NUL])) = cstr (drop (2 + e + 1) arg)"
  by (simp add: drop_update_cancel)

lemma cli_parse_long_eq:
  assumes a: "a < length (argv w)"
  shows "cli_parse_long clip w a r =
    (let arg = argv w ! a;
         eq = strchr (drop 2 arg) CHR ''='';
         key = takeWhile (\<lambda>c. c \<noteq> CHR ''='') (cstr (drop 2 arg));
         cut = (\<lambda>w. case eq of
                  Some e \<Rightarrow> w\<lparr>argv := (argv w)[a := arg[2 + e := NUL]]\<rparr>
                | None \<Rightarrow> w)
     in case cli__find_opt clip (live clip) key of
          (None, g) \<Rightarrow>
            Some (Return (CLIP_ERR_BAD_ARG, clip,
              emit (err_sink clip) (cli_bad_arg (flags clip) 2 ''Invalid option:'' key) (cut w)))
        | (Some ov, g) \<Rightarrow>
            if mode ov = 0 then
              (case invoke clip w g (Some ov) None of
                 (rc, w') \<Rightarrow>
                   if rc \<noteq> 0 then Some (Return (CLIP_ERR_CB_FAIL, clip, cut w'))
                   else Some (Continue (rc, clip, w')))
            else if mode ov AND ARG_REQD \<noteq> 0 then
              (case eq of
                 Some e \<Rightarrow>
                   (case invoke clip w g (Some ov) (Some (cstr (drop (2 + e + 1) arg))) of
                      (rc, w') \<Rightarrow>
                        if rc \<noteq> 0 then Some (Return (CLIP_ERR_CB_FAIL, clip, cut w'))
                        else Some (Continue (rc, clip, w')))
               | None \<Rightarrow>
                   if index clip < argc w then
                     (if 0 \<le> index clip then
                        (case invoke clip w g (Some ov) (Some (cstr (argv w ! nat (index clip)))) of
                           (rc, w') \<Rightarrow>
                             if rc \<noteq> 0
                             then Some (Return (CLIP_ERR_CB_FAIL, clip\<lparr>index := index clip + 1\<rparr>, w'))
                             else Some (Continue (rc, clip\<lparr>index := index clip + 1\<rparr>, w')))
                      else UB)
                   else
                     Some (Return (CLIP_ERR_BAD_ARG, clip,
                       emit (err_sink clip)
                         (cli_bad_arg (flags clip) 2 ''Missing required value for'' key) w)))
            else Some (Continue (r, clip, w)))"
proof -
  let ?arg = "argv w ! a"
  let ?key = "takeWhile (\<lambda>c. c \<noteq> CHR ''='') (cstr (drop 2 ?arg))"
  obtain opt g where f: "cli__find_opt clip (live clip) ?key = (opt, g)"
    by (cases "cli__find_opt clip (live clip) ?key")
  show ?thesis
  proof (cases "strchr (drop 2 ?arg) CHR ''=''")
    case None
    have k: "cstr (drop 2 ?arg) = cstr ?key"
      by (simp only: cstr_idem strchr_None [OF None])
    note fo = find_opt_cong [OF k] and ba = bad_arg_cong [OF k]
    show ?thesis
    proof (cases opt)
      case None
      with \<open>strchr (drop 2 ?arg) CHR ''='' = None\<close> f show ?thesis
        by (simp add: cli_parse_long_def Let_def fo ba)
    next
      case (Some ov)
      with \<open>strchr (drop 2 ?arg) CHR ''='' = None\<close> f show ?thesis
        by (simp add: cli_parse_long_def Let_def fo ba argv_at_def split: prod.splits)
    qed
  next
    case (Some e)
    let ?cut = "(argv w)[a := ?arg[2 + e := NUL]]"
    have k: "cstr (drop 2 (?arg[2 + e := NUL])) = cstr ?key"
      using long_key [OF Some] by simp
    note fo = find_opt_cong [OF k] and ba = bad_arg_cong [OF k]
    have nth: "?cut ! a = ?arg[2 + e := NUL]"
      using a by (simp del: add_2_eq_Suc add_2_eq_Suc')
    have restore:
      "(w'\<lparr>argv := ?cut\<rparr>)\<lparr>argv := ?cut[a := (?arg[2 + e := NUL])[2 + e := CHR ''='']]\<rparr> = w'"
      if "invoke clip w g' opt' v = (rc, w')" for w' :: "'a world" and g' opt' v rc
      using cut_restore [OF a Some, of w'] invoke_frame [OF that] nth
      by (simp del: add_2_eq_Suc add_2_eq_Suc')
    show ?thesis
    proof (cases opt)
      case None
      with Some f show ?thesis
        by (simp add: cli_parse_long_def Let_def fo ba nth del: add_2_eq_Suc add_2_eq_Suc')
    next
      case ov: (Some ov)
      consider "mode ov = 0" | "mode ov \<noteq> 0" "mode ov AND ARG_REQD \<noteq> 0"
        | "mode ov \<noteq> 0" "mode ov AND ARG_REQD = 0"
        by blast
      then show ?thesis
      proof cases
        case 1
        obtain rc w' where i: "invoke clip w g (Some ov) None = (rc, w')"
          by (cases "invoke clip w g (Some ov) None")
        from 1 Some f ov i restore [OF i] invoke_frame [OF i] show ?thesis
          by (simp add: cli_parse_long_def Let_def fo nth invoke_argv_update
              del: list_update_overwrite add_2_eq_Suc add_2_eq_Suc')
      next
        case 2
        obtain rc w' where
          i: "invoke clip w g (Some ov) (Some (cstr (drop (2 + e + 1) ?arg))) = (rc, w')"
          by (cases "invoke clip w g (Some ov) (Some (cstr (drop (2 + e + 1) ?arg)))")
        from 2 Some f ov i restore [OF i] invoke_frame [OF i] long_val [of e ?arg] show ?thesis
          by (simp add: cli_parse_long_def Let_def fo nth invoke_argv_update
              del: list_update_overwrite add_2_eq_Suc add_2_eq_Suc')
      next
        case 3
        from 3 Some f ov cut_restore [OF a Some refl] nth show ?thesis
          by (simp add: cli_parse_long_def Let_def fo del: list_update_overwrite add_2_eq_Suc add_2_eq_Suc')
      qed
    qed
  qed
qed

lemma char_at_strlen: "char_at b (k + strlen (drop k b)) = NUL"
proof (cases "k + strlen (drop k b) < length b")
  case True
  then have "length (takeWhile (\<lambda>c. c \<noteq> NUL) (drop k b)) < length (drop k b)"
    by (simp add: strlen_def cstr_def)
  then have "drop k b ! length (takeWhile (\<lambda>c. c \<noteq> NUL) (drop k b)) = NUL"
    using nth_length_takeWhile by fastforce
  with True show ?thesis
    by (simp add: char_at_def strlen_def cstr_def)
next
  case False
  then show ?thesis by (simp add: char_at_def)
qed

lemma char_at_strlen0: "char_at b (strlen b) = NUL"
  using char_at_strlen [of b 0] by simp

text \<open>
  What one round of the cluster loop does. After a value-required character the test
  of the loop fails, whichever way the value was found.
\<close>

lemma cli_cluster_eq:
  "cli_cluster clip w arg i r =
    (case cli__find_opt clip (live clip) [char_at arg i] of
       (None, g) \<Rightarrow>
         Some (Return (CLIP_ERR_BAD_ARG, clip,
           emit (err_sink clip) (cli_bad_arg (flags clip) 1 ''Invalid option:'' [char_at arg i]) w))
     | (Some ov, g) \<Rightarrow>
         if mode ov = 0 then
           (case invoke clip w g (Some ov) None of
              (rc, w') \<Rightarrow>
                if rc \<noteq> 0 then Some (Return (CLIP_ERR_CB_FAIL, clip, w'))
                else if char_at arg (i + 1) \<noteq> NUL then cli_cluster clip w' arg (i + 1) rc
                else Some (Continue (rc, clip, w')))
         else if mode ov AND ARG_REQD \<noteq> 0 then
           (if char_at arg (i + 1) = NUL then
              (if index clip < argc w then
                 (if 0 \<le> index clip then
                    (case invoke clip w g (Some ov) (Some (cstr (argv w ! nat (index clip)))) of
                       (rc, w') \<Rightarrow>
                         if rc \<noteq> 0
                         then Some (Return (CLIP_ERR_CB_FAIL, clip\<lparr>index := index clip + 1\<rparr>, w'))
                         else Some (Continue (rc, clip\<lparr>index := index clip + 1\<rparr>, w')))
                  else UB)
               else
                 Some (Return (CLIP_ERR_BAD_ARG, clip,
                   emit (err_sink clip)
                     (cli_bad_arg (flags clip) 1 ''Missing required value for'' [char_at arg i]) w)))
            else
              (case invoke clip w g (Some ov) (Some (cstr (drop (i + 1) arg))) of
                 (rc, w') \<Rightarrow>
                   if rc \<noteq> 0 then Some (Return (CLIP_ERR_CB_FAIL, clip, w'))
                   else Some (Continue (rc, clip, w'))))
         else if char_at arg (i + 1) \<noteq> NUL then cli_cluster clip w arg (i + 1) r
         else Some (Continue (r, clip, w)))"
proof -
  obtain opt g where f: "cli__find_opt clip (live clip) [char_at arg i] = (opt, g)"
    by (cases "cli__find_opt clip (live clip) [char_at arg i]")
  have nulS: "char_at arg (Suc (i + strlen (drop (Suc i) arg))) = NUL"
    using char_at_strlen [of arg "Suc i"] by simp
  show ?thesis
  proof (cases opt)
    case None
    with f show ?thesis
      by (simp add: cli_cluster.simps [of clip w arg i r] cluster_step_def)
  next
    case ov: (Some ov)
    consider "mode ov = 0" | "mode ov \<noteq> 0" "mode ov AND ARG_REQD \<noteq> 0"
      | "mode ov \<noteq> 0" "mode ov AND ARG_REQD = 0"
      by blast
    then show ?thesis
    proof cases
      case 1
      with f ov show ?thesis
        by (simp add: cli_cluster.simps [of clip w arg i r] cluster_step_def split: prod.splits)
    next
      case 2
      with f ov show ?thesis
        by (simp add: cli_cluster.simps [of clip w arg i r] cluster_step_def argv_at_def
            nulS char_at_strlen0 split: prod.splits)
    next
      case 3
      with f ov show ?thesis
        by (simp add: cli_cluster.simps [of clip w arg i r] cluster_step_def)
    qed
  qed
qed

lemma live_index [simp]: "live (clip\<lparr>index := i\<rparr>) = live clip"
  by simp

lemma mode_reqd_nonzero: "mode ov AND ARG_REQD \<noteq> 0 \<Longrightarrow> mode ov \<noteq> 0"
  by auto


lemma observed_emit [simp]:
  "observed (Some (rv, c, emit s t w)) = Some (rv, calls w, usr w)"
  by (simp add: observed_def emit_def)

lemma observed_emit_argv [simp]:
  "observed (Some (rv, c, emit s t (w\<lparr>argv := x\<rparr>))) = Some (rv, calls w, usr w)"
  by (simp add: observed_def emit_def)

lemma invoke_accepted:
  "\<forall>u g opt v. fst (cb clip u g opt v) = 0 \<Longrightarrow>
   invoke clip w g opt v =
     (0, w\<lparr>usr := snd (cb clip (usr w) g opt v), calls := calls w @ [(g, opt, v)]\<rparr>)"
proof -
  assume a: "\<forall>u g opt v. fst (cb clip u g opt v) = 0"
  obtain rc u where c: "cb clip (usr w) g opt v = (rc, u)"
    by (cases "cb clip (usr w) g opt v")
  from a have "fst (cb clip (usr w) g opt v) = 0" by blast
  with c show ?thesis by (simp add: invoke_def)
qed

lemma find_opt_live [simp]:
  "cli__find_opt (clip\<lparr>live := l\<rparr>) g s = cli__find_opt clip g s"
  by (simp add: cli__find_opt_eq split: option.splits)

lemma invoke_live [simp]: "invoke (clip\<lparr>live := l\<rparr>) w g opt v = invoke clip w g opt v"
  by (simp add: invoke_def)

lemma cb_index_live [simp]: "cb (clip\<lparr>index := i, live := l\<rparr>) = cb clip"
  by simp

section \<open>The guard against a second parse\<close>

text \<open>
  C8. A configuration whose \<open>index\<close> is not 0 makes \<open>cli_parse\<close> return
  \<open>CLIP_ERR_INVALID\<close> (-1) at once: the configuration and the world come back as they
  were, so no token is read and the callback is not invoked.
\<close>

theorem C8_second_parse_is_invalid:
  "index clip \<noteq> 0 \<Longrightarrow>
   cli_parse clip w = Some (CLIP_ERR_INVALID, clip, w) \<and> CLIP_ERR_INVALID = -1"
  by (simp add: cli_parse_def CLIP_ERR_INVALID_def)

theorem C8_second_parse_is_invalid_witness:
  "index (install_clip\<lparr>index := 3\<rparr>) \<noteq> 0
   \<and> cli_parse (install_clip\<lparr>index := 3\<rparr>) (ex_world [''pip'', ''install'', ''pkgA''])
       = Some (CLIP_ERR_INVALID, install_clip\<lparr>index := 3\<rparr>, ex_world [''pip'', ''install'', ''pkgA''])
   \<and> calls (ex_world [''pip'', ''install'', ''pkgA'']) = []"
  using C8_second_parse_is_invalid [of "install_clip\<lparr>index := 3\<rparr>" "ex_world [''pip'', ''install'', ''pkgA'']"]
  by (simp add: ex_world_def)

section \<open>Sub-command detection\<close>

text \<open>
  C1. On \<open>["pip", "install", "pkgA", "pkgB"]\<close> with the sub-command \<open>install\<close>
  registered, \<open>cli_parse\<close> returns \<open>CLIP_ERR_OK\<close> with the active group set to
  \<open>install\<close> and the cursor behind the last token, but the callback has been invoked
  twice only, for \<open>pkgA\<close> and for \<open>pkgB\<close>: there is no invocation with the sub-command
  and no option, which clip.h and the README promise.
\<close>

theorem C1_no_callback_for_sub_command:
  "map_option (\<lambda>(r, c, w). (r, index c, live c, calls w))
     (cli_parse install_clip (ex_world [''pip'', ''install'', ''pkgA'', ''pkgB'']))
   = Some (CLIP_ERR_OK, 4, Some install_cmd,
       [(Some install_cmd, Some package_opt, Some ''pkgA''),
        (Some install_cmd, Some package_opt, Some ''pkgB'')])"
  by (simp add: parse_defs c_string_defs clip_h_defs example_defs)

section \<open>Tokens that start with a dash but are no options\<close>





section \<open>Unrecognised tokens and missing values\<close>




section \<open>Writes to the argument strings\<close>



section \<open>Short clusters\<close>

lemma abc_example:
  assumes "index clip = 0"
    and "cli__find_opt_0 (base clip) ''a'' = Some oa" and "mode oa = 0"
    and "cli__find_opt_0 (base clip) ''b'' = Some ob" and "mode ob = 0"
    and "cli__find_opt_0 (base clip) ''c'' = Some oc" and "mode oc AND ARG_REQD \<noteq> 0"
    and "\<forall>u g opt v. fst (cb clip u g opt v) = 0"
    and "argv w = [prog, ''-abc'', ''data'']"
  shows "\<exists>c' w'. cli_parse clip w = Some (CLIP_ERR_OK, c', w')
      \<and> calls w' = calls w @ [(base clip, Some oa, None), (base clip, Some ob, None),
                                  (base clip, Some oc, Some ''data'')]"
proof -
  let ?c1 = "clip\<lparr>index := 1, live := base clip\<rparr>"
  let ?c2 = "clip\<lparr>live := base clip, index := 2\<rparr>"
  let ?c3 = "clip\<lparr>live := base clip, index := 3\<rparr>"
  have acc: "\<forall>u g opt v. fst (cb c u g opt v) = 0" if "cb c = cb clip" for c :: "'a clip"
    using assms(8) that by simp
  note inv = invoke_accepted [OF acc]
  have lookups:
    "cli__find_opt c (base clip) ''a'' = (Some oa, base clip)"
    "cli__find_opt c (base clip) ''b'' = (Some ob, base clip)"
    "cli__find_opt c (base clip) ''c'' = (Some oc, base clip)" if "base c = base clip" for c :: "'a clip"
    using assms(2,4,6) that by (simp_all add: cli__find_opt_eq)
  have sub: "cli_subcmd (clip\<lparr>index := 1\<rparr>) w = Some ?c1"
    using assms(9) by (simp add: cli_subcmd_def argv_at_def argc_def c_string_defs)
  have pre: "cli_prescan ?c1 w [''-abc'', ''data''] = Some (Continue ())"
    by (simp add: show_help_def show_version_def c_string_defs)
  have m: "mode oc \<noteq> 0"
    using assms(7) by (rule mode_reqd_nonzero)
  obtain w3 where cl: "cli_cluster ?c2 w ''-abc'' 1 0 = Some (Continue (0, ?c3, w3))"
    and w3: "calls w3 = calls w @ [(base clip, Some oa, None), (base clip, Some ob, None),
                                  (base clip, Some oc, Some ''data'')]"
      "argv w3 = argv w"
    using assms(3,5,7,9) m
    by (simp add: cli_cluster_eq lookups inv c_string_defs argc_def)
  have "cli_loop ?c1 w 0 = Some (0, ?c3, w3)"
    using assms(9) cl w3(2)
    by (simp add: cli_loop.simps [of ?c1] cli_loop.simps [of ?c3] argc_def cli_token_def
        IS_SHORT_OPT_def c_string_defs)
  with sub pre w3(1) assms(1,9) show ?thesis
    by (simp add: cli_parse_def argc_def CLIP_ERR_OK_def)
qed

lemma abcdata_example:
  assumes "index clip = 0"
    and "cli__find_opt_0 (base clip) ''a'' = Some oa" and "mode oa = 0"
    and "cli__find_opt_0 (base clip) ''b'' = Some ob" and "mode ob = 0"
    and "cli__find_opt_0 (base clip) ''c'' = Some oc" and "mode oc AND ARG_REQD \<noteq> 0"
    and "\<forall>u g opt v. fst (cb clip u g opt v) = 0"
    and "argv w = [prog, ''-abcdata'']"
  shows "\<exists>c' w'. cli_parse clip w = Some (CLIP_ERR_OK, c', w')
      \<and> calls w' = calls w @ [(base clip, Some oa, None), (base clip, Some ob, None),
                                  (base clip, Some oc, Some ''data'')]"
proof -
  let ?c1 = "clip\<lparr>index := 1, live := base clip\<rparr>"
  let ?c2 = "clip\<lparr>live := base clip, index := 2\<rparr>"
  have acc: "\<forall>u g opt v. fst (cb c u g opt v) = 0" if "cb c = cb clip" for c :: "'a clip"
    using assms(8) that by simp
  note inv = invoke_accepted [OF acc]
  have lookups:
    "cli__find_opt c (base clip) ''a'' = (Some oa, base clip)"
    "cli__find_opt c (base clip) ''b'' = (Some ob, base clip)"
    "cli__find_opt c (base clip) ''c'' = (Some oc, base clip)" if "base c = base clip" for c :: "'a clip"
    using assms(2,4,6) that by (simp_all add: cli__find_opt_eq)
  have sub: "cli_subcmd (clip\<lparr>index := 1\<rparr>) w = Some ?c1"
    using assms(9) by (simp add: cli_subcmd_def argv_at_def argc_def c_string_defs)
  have pre: "cli_prescan ?c1 w [''-abcdata''] = Some (Continue ())"
    by (simp add: show_help_def show_version_def c_string_defs)
  have m: "mode oc \<noteq> 0"
    using assms(7) by (rule mode_reqd_nonzero)
  obtain w3 where cl: "cli_cluster ?c2 w ''-abcdata'' 1 0 = Some (Continue (0, ?c2, w3))"
    and w3: "calls w3 = calls w @ [(base clip, Some oa, None), (base clip, Some ob, None),
                                  (base clip, Some oc, Some ''data'')]"
      "argv w3 = argv w"
    using assms(3,5,7,9) m
    by (simp add: cli_cluster_eq lookups inv c_string_defs argc_def)
  have "cli_loop ?c1 w 0 = Some (0, ?c2, w3)"
    using assms(9) cl w3(2)
    by (simp add: cli_loop.simps [of ?c1] cli_loop.simps [of ?c2] argc_def cli_token_def
        IS_SHORT_OPT_def c_string_defs)
  with sub pre w3(1) assms(1,9) show ?thesis
    by (simp add: cli_parse_def argc_def CLIP_ERR_OK_def)
qed

text \<open>
  C6. With \<open>-a\<close> and \<open>-b\<close> switches and \<open>-c\<close> value-required in the base group and a
  callback that accepts, both \<open>["-abc", "data"]\<close> and \<open>["-abcdata"]\<close> end with
  \<open>CLIP_ERR_OK\<close> after the calls \<open>a\<close>, \<open>b\<close>, \<open>c("data")\<close>. In general, in any state of the
  loop over a cluster, a value-required character takes the rest of the token as its
  value when there is one and the next whole token otherwise (moving the cursor past
  it); after the callback the loop over the cluster is left, so no further character
  of the token is looked up.
\<close>

theorem C6_short_cluster_value:
  assumes "index clip = 0"
    and "cli__find_opt_0 (base clip) ''a'' = Some oa" and "mode oa = 0"
    and "cli__find_opt_0 (base clip) ''b'' = Some ob" and "mode ob = 0"
    and "cli__find_opt_0 (base clip) ''c'' = Some oc" and "mode oc AND ARG_REQD \<noteq> 0"
    and "\<forall>u g opt v. fst (cb clip u g opt v) = 0"
    and "argv w = [prog, ''-abc'', ''data''] \<or> argv w = [prog, ''-abcdata'']"
  shows "(\<exists>c' w'. cli_parse clip w = Some (CLIP_ERR_OK, c', w')
            \<and> calls w' = calls w @ [(base clip, Some oa, None), (base clip, Some ob, None),
                                        (base clip, Some oc, Some ''data'')])
    \<and> (cli__find_opt cl (live cl) [char_at tok i] = (Some ov, g) \<and> mode ov AND ARG_REQD \<noteq> 0
         \<and> char_at tok (i + 1) \<noteq> NUL
         \<longrightarrow> cli_cluster cl cw tok i r =
               (case invoke cl cw g (Some ov) (Some (cstr (drop (i + 1) tok))) of
                  (rc, cw') \<Rightarrow>
                    if rc \<noteq> 0 then Some (Return (CLIP_ERR_CB_FAIL, cl, cw'))
                    else Some (Continue (rc, cl, cw'))))
    \<and> (cli__find_opt cl (live cl) [char_at tok i] = (Some ov, g) \<and> mode ov AND ARG_REQD \<noteq> 0
         \<and> char_at tok (i + 1) = NUL \<and> 0 \<le> index cl \<and> index cl < argc cw
         \<longrightarrow> cli_cluster cl cw tok i r =
               (case invoke cl cw g (Some ov) (Some (cstr (argv cw ! nat (index cl)))) of
                  (rc, cw') \<Rightarrow>
                    if rc \<noteq> 0
                    then Some (Return (CLIP_ERR_CB_FAIL, cl\<lparr>index := index cl + 1\<rparr>, cw'))
                    else Some (Continue (rc, cl\<lparr>index := index cl + 1\<rparr>, cw'))))"
proof -
  have inline: "cli_cluster cl cw tok i r =
      (case invoke cl cw g (Some ov) (Some (cstr (drop (i + 1) tok))) of
         (rc, cw') \<Rightarrow>
           if rc \<noteq> 0 then Some (Return (CLIP_ERR_CB_FAIL, cl, cw'))
           else Some (Continue (rc, cl, cw')))"
    if "cli__find_opt cl (live cl) [char_at tok i] = (Some ov, g)" "mode ov AND ARG_REQD \<noteq> 0"
      "char_at tok (i + 1) \<noteq> NUL"
    using that mode_reqd_nonzero [OF that(2)]
    by (subst cli_cluster_eq) simp
  have next_token: "cli_cluster cl cw tok i r =
      (case invoke cl cw g (Some ov) (Some (cstr (argv cw ! nat (index cl)))) of
         (rc, cw') \<Rightarrow>
           if rc \<noteq> 0
           then Some (Return (CLIP_ERR_CB_FAIL, cl\<lparr>index := index cl + 1\<rparr>, cw'))
           else Some (Continue (rc, cl\<lparr>index := index cl + 1\<rparr>, cw')))"
    if "cli__find_opt cl (live cl) [char_at tok i] = (Some ov, g)" "mode ov AND ARG_REQD \<noteq> 0"
      "char_at tok (i + 1) = NUL" "0 \<le> index cl" "index cl < argc cw"
    using that mode_reqd_nonzero [OF that(2)]
    by (subst cli_cluster_eq) simp
  from assms(9) have "\<exists>c' w'. cli_parse clip w = Some (CLIP_ERR_OK, c', w')
      \<and> calls w' = calls w @ [(base clip, Some oa, None), (base clip, Some ob, None),
                                  (base clip, Some oc, Some ''data'')]"
    using abc_example [OF assms(1-8)] abcdata_example [OF assms(1-8)] by blast
  with inline next_token show ?thesis by blast
qed

theorem C6_short_cluster_value_witness:
  "observed (cli_parse abc_clip (ex_world [''prog'', ''-abc'', ''data'']))
     = Some (CLIP_ERR_OK,
         [(base abc_clip, Some (CLI_OPT_SWITCH (char_int CHR ''a'') None (Some ''First switch.'')), None),
          (base abc_clip, Some (CLI_OPT_SWITCH (char_int CHR ''b'') None (Some ''Second switch.'')), None),
          (base abc_clip,
           Some (CLI_OPT_VALUE (char_int CHR ''c'') None (Some ''T'') (Some ''Takes a value.'')),
           Some ''data'')], 3)
   \<and> observed (cli_parse abc_clip (ex_world [''prog'', ''-abcdata'']))
     = observed (cli_parse abc_clip (ex_world [''prog'', ''-abc'', ''data'']))"
proof -
  let ?a = "CLI_OPT_SWITCH (char_int CHR ''a'') None (Some ''First switch.'')"
  let ?b = "CLI_OPT_SWITCH (char_int CHR ''b'') None (Some ''Second switch.'')"
  let ?c = "CLI_OPT_VALUE (char_int CHR ''c'') None (Some ''T'') (Some ''Takes a value.'')"
  note defs = parse_defs c_string_defs clip_h_defs example_defs
  have h: "index abc_clip = 0"
    "cli__find_opt_0 (base abc_clip) ''a'' = Some ?a" "mode ?a = 0"
    "cli__find_opt_0 (base abc_clip) ''b'' = Some ?b" "mode ?b = 0"
    "cli__find_opt_0 (base abc_clip) ''c'' = Some ?c" "mode ?c AND ARG_REQD \<noteq> 0"
    "\<forall>u g opt v. fst (cb abc_clip u g opt v) = 0"
    by (simp_all add: defs)
  have w1: "argv (ex_world [''prog'', ''-abc'', ''data'']) = [''prog'', ''-abc'', ''data'']
      \<or> argv (ex_world [''prog'', ''-abc'', ''data'']) = [''prog'', ''-abcdata'']"
    and w2: "argv (ex_world [''prog'', ''-abcdata'']) = [''prog'', ''-abc'', ''data'']
      \<or> argv (ex_world [''prog'', ''-abcdata'']) = [''prog'', ''-abcdata'']"
    by (simp_all add: ex_world_def)
  from C6_short_cluster_value [OF h w1, THEN conjunct1]
  obtain c1 v1 where 1: "cli_parse abc_clip (ex_world [''prog'', ''-abc'', ''data'']) = Some (CLIP_ERR_OK, c1, v1)"
    "calls v1 = [(base abc_clip, Some ?a, None), (base abc_clip, Some ?b, None),
       (base abc_clip, Some ?c, Some ''data'')]"
    by (auto simp: ex_world_def)
  from C6_short_cluster_value [OF h w2, THEN conjunct1]
  obtain c2 v2 where 2: "cli_parse abc_clip (ex_world [''prog'', ''-abcdata'']) = Some (CLIP_ERR_OK, c2, v2)"
    "calls v2 = [(base abc_clip, Some ?a, None), (base abc_clip, Some ?b, None),
       (base abc_clip, Some ?c, Some ''data'')]"
    by (auto simp: ex_world_def)
  have u: "map_option (\<lambda>(rv, c, w). usr w) (cli_parse abc_clip (ex_world [''prog'', ''-abc'', ''data''])) = Some 3"
    "map_option (\<lambda>(rv, c, w). usr w) (cli_parse abc_clip (ex_world [''prog'', ''-abcdata''])) = Some 3"
    by (simp_all add: defs)
  from 1 2 u show ?thesis
    by (simp add: observed_def)
qed

section \<open>Argument files\<close>

lemma fgets_chars_line:
  "newline \<notin> set s \<Longrightarrow> length s < n \<Longrightarrow> fgets_chars n (s @ newline # rest) = s @ [newline]"
proof (induction s arbitrary: n)
  case Nil
  then show ?case by (cases n) simp_all
next
  case (Cons c s)
  then show ?case by (cases n) auto
qed

lemma fgets_line:
  assumes "newline \<notin> set s" and "length s < CLIP_BUFFER_SIZE - 1"
  shows "fgets CLIP_BUFFER_SIZE (s @ newline # rest) = Some (s @ [newline], rest)"
  using fgets_chars_line [OF assms, of rest] by (simp add: fgets_def)

lemma fgets_eof: "fgets n [] = None"
  by (simp add: fgets_def)

lemma file_loop_line:
  assumes "newline \<notin> set s" and "length s < CLIP_BUFFER_SIZE - 1"
  shows "cli_do_file_loop clip w (s @ newline # rest) r =
    (case cli_do_line clip w (s @ [newline]) of
       Return x \<Rightarrow> x
     | Continue (r', w') \<Rightarrow> cli_do_file_loop clip w' rest r')"
  by (subst cli_do_file_loop.simps) (simp add: fgets_line [OF assms])

lemma file_loop_eof: "cli_do_file_loop clip w [] r = (r, w)"
  by (subst cli_do_file_loop.simps) (simp add: fgets_eof)

lemma cstr_append_NUL: "NUL \<notin> set s \<Longrightarrow> cstr (s @ NUL # t) = s"
  by (auto simp: cstr_def takeWhile_tail)

lemma strchr_cong: "cstr b = cstr b' \<Longrightarrow> strchr b c = strchr b' c"
  by (simp add: strchr_def)

lemma strlen_cong: "cstr b = cstr b' \<Longrightarrow> strlen b = strlen b'"
  by (simp add: strlen_def)

lemma strchr_line:
  assumes "NUL \<notin> set s"
  shows "strchr s c =
    (if c \<in> set s then Some (length (takeWhile (\<lambda>d. d \<noteq> c) s)) else None)"
  using assms by (simp add: strchr_def cstr_no_NUL)

lemma fgets_chars_last:
  "newline \<notin> set s \<Longrightarrow> length s < n \<Longrightarrow> fgets_chars n s = s"
proof (induction s arbitrary: n)
  case Nil
  then show ?case by (cases n) simp_all
next
  case (Cons c s)
  then show ?case by (cases n) auto
qed

lemma file_loop_last:
  assumes "s \<noteq> []" and "newline \<notin> set s" and "length s < CLIP_BUFFER_SIZE - 1"
  shows "cli_do_file_loop clip w s r =
    (case cli_do_line clip w s of
       Return x \<Rightarrow> x
     | Continue (r', w') \<Rightarrow> (r', w'))"
proof -
  have "fgets CLIP_BUFFER_SIZE s = Some (s, [])"
    using assms by (simp add: fgets_def fgets_chars_last)
  then show ?thesis
    by (subst cli_do_file_loop.simps) (simp add: file_loop_eof split: flow.splits)
qed

text \<open>
  The buffer after the newline was cut (\<open>t\<close> is what is left of the end of the line),
  split at the separator at offset \<open>e\<close>.
\<close>

lemma split_at:
  assumes s: "NUL \<notin> set s" and c: "c \<in> set s" and e: "e = length (takeWhile (\<lambda>d. d \<noteq> c) s)"
    and t: "t = [] \<or> t = [NUL]"
  shows "cstr ((s @ t)[e := NUL]) = takeWhile (\<lambda>d. d \<noteq> c) s"
    and "cstr (drop (e + 1) ((s @ t)[e := NUL])) = drop 1 (dropWhile (\<lambda>d. d \<noteq> c) s)"
proof -
  from takeWhile_stops [OF c, of "\<lambda>d. d \<noteq> c"] e have lt: "e < length s"
    by simp
  have sc: "strchr s c = Some e"
    using s c e by (simp add: strchr_line)
  have upd: "(s @ t)[e := NUL] = s[e := NUL] @ t"
    using lt by (simp add: list_update_append)
  have "NUL \<in> set (s[e := NUL])"
    using lt by (simp add: set_update_memI)
  then have "cstr (s[e := NUL] @ t) = cstr (s[e := NUL])"
    by (simp add: cstr_def takeWhile_append1)
  also have "\<dots> = takeWhile (\<lambda>d. d \<noteq> c) (cstr s)"
    by (rule cstr_cut [OF sc])
  finally show "cstr ((s @ t)[e := NUL]) = takeWhile (\<lambda>d. d \<noteq> c) s"
    using s upd by (simp add: cstr_no_NUL)
  have "drop (e + 1) ((s @ t)[e := NUL]) = drop (e + 1) s @ t"
    using lt by (simp add: drop_update_cancel)
  moreover have n: "NUL \<notin> set (drop (e + 1) s)"
    using s by (auto dest: in_set_dropD)
  moreover have "cstr (drop (e + 1) s @ t) = drop (e + 1) s"
    using t n by (auto simp: cstr_append_NUL cstr_no_NUL)
  ultimately have "cstr (drop (e + 1) ((s @ t)[e := NUL])) = drop (e + 1) s"
    by simp
  moreover have "dropWhile (\<lambda>d. d \<noteq> c) s = drop e s"
    unfolding e by (rule dropWhile_eq_drop)
  ultimately show "cstr (drop (e + 1) ((s @ t)[e := NUL])) = drop 1 (dropWhile (\<lambda>d. d \<noteq> c) s)"
    by simp
qed

text \<open>
  One line of an argument file, with or without its newline: the loader does what the
  split of the line says, with one look-up and one invocation of the callback.
\<close>

lemma cli_do_line_spec:
  assumes s: "NUL \<notin> set s" and nl: "newline \<notin> set s" and eol: "eol = [] \<or> eol = [newline]"
  shows "cli_do_line clip w (s @ eol) =
    (case spec_split_line s of
       (key, val) \<Rightarrow>
         (case cli__find_opt clip (live clip) key of
            (None, g) \<Rightarrow>
              Return (CLIP_ERR_BAD_ARG,
                emit (err_sink clip)
                  (cli_bad_arg (flags clip) (if length key = 1 then 1 else 2)
                     ''Invalid option:'' key) w)
          | (Some ov, g) \<Rightarrow>
              (case invoke clip w g (Some ov) val of
                 (rc, w') \<Rightarrow>
                   if rc \<noteq> 0 then Return (CLIP_ERR_CB_FAIL, w') else Continue (rc, w'))))"
proof -
  define t where "t = (if eol = [] then [] else [NUL])"
  have t: "t = [] \<or> t = [NUL]"
    by (simp add: t_def)
  let ?b1 = "s @ t"
  have "NUL \<notin> set (s @ [newline])"
    using s by (simp add: NUL_def newline_def)
  then have "strchr (s @ [newline]) newline = Some (length s)"
    using nl by (auto simp: strchr_line takeWhile_append)
  moreover have "strchr s newline = None"
    using s nl by (simp add: strchr_line)
  ultimately have b1: "(case strchr (s @ eol) newline of
      Some n \<Rightarrow> (s @ eol)[n := NUL] | None \<Rightarrow> s @ eol) = ?b1"
    using eol by (auto simp: t_def)
  have c1: "cstr ?b1 = cstr s"
    using s t by (auto simp: cstr_append_NUL cstr_no_NUL)
  have sc: "strchr ?b1 c = (if c \<in> set s then Some (length (takeWhile (\<lambda>d. d \<noteq> c) s)) else None)"
    for c
    using strchr_cong [OF c1, of c] s by (simp add: strchr_line)
  have core: "cli_do_line clip w (s @ eol) =
    (case cli__find_opt clip (live clip) key of
       (None, g) \<Rightarrow>
         Return (CLIP_ERR_BAD_ARG,
           emit (err_sink clip)
             (cli_bad_arg (flags clip) (if length key = 1 then 1 else 2) ''Invalid option:'' key) w)
     | (Some ov, g) \<Rightarrow>
         (case invoke clip w g (Some ov) val of
            (rc, w') \<Rightarrow>
              if rc \<noteq> 0 then Return (CLIP_ERR_CB_FAIL, w') else Continue (rc, w')))"
    if eq: "(case strchr ?b1 CHR ''='' of Some e \<Rightarrow> Some e | None \<Rightarrow> strchr ?b1 CHR '' '') = eq"
      and k: "cstr (case eq of Some e \<Rightarrow> ?b1[e := NUL] | None \<Rightarrow> ?b1) = key"
      and nk: "NUL \<notin> set key"
      and v: "(case eq of
                 Some e \<Rightarrow> Some (cstr (drop (e + 1) (case eq of Some e \<Rightarrow> ?b1[e := NUL] | None \<Rightarrow> ?b1)))
               | None \<Rightarrow> None) = val"
    for eq key val
  proof -
    let ?b2 = "case eq of Some e \<Rightarrow> ?b1[e := NUL] | None \<Rightarrow> ?b1"
    have ck: "cstr ?b2 = cstr key"
      using k nk by (simp add: cstr_no_NUL)
    note fo = find_opt_cong [OF ck, of clip "live clip"]
    note ba = bad_arg_cong [OF ck]
    have sl: "strlen ?b2 = length key"
      using k by (simp add: strlen_def)
    obtain opt g where f: "cli__find_opt clip (live clip) key = (opt, g)"
      by (cases "cli__find_opt clip (live clip) key")
    show ?thesis
      unfolding cli_do_line_def b1 Let_def eq fo ba sl v f
      by (cases opt) (simp_all split: prod.splits)
  qed
  have sep: ?thesis
    if c: "c \<in> set s"
      and first: "(case strchr ?b1 CHR ''='' of Some e \<Rightarrow> Some e | None \<Rightarrow> strchr ?b1 CHR '' '') =
                  Some (length (takeWhile (\<lambda>d. d \<noteq> c) s))"
      and ss: "spec_split_line s =
                 (takeWhile (\<lambda>d. d \<noteq> c) s, Some (drop 1 (dropWhile (\<lambda>d. d \<noteq> c) s)))"
    for c
  proof -
    let ?e = "length (takeWhile (\<lambda>d. d \<noteq> c) s)"
    note sp = split_at [OF s c refl t]
    have nk: "NUL \<notin> set (takeWhile (\<lambda>d. d \<noteq> c) s)"
      using s by (auto dest: set_takeWhileD)
    have k: "cstr (case Some ?e of Some e \<Rightarrow> ?b1[e := NUL] | None \<Rightarrow> ?b1) =
             takeWhile (\<lambda>d. d \<noteq> c) s"
      unfolding option.case by (rule sp(1))
    have v: "(case Some ?e of
                Some e \<Rightarrow>
                  Some (cstr (drop (e + 1) (case Some ?e of Some e \<Rightarrow> ?b1[e := NUL] | None \<Rightarrow> ?b1)))
              | None \<Rightarrow> None) = Some (drop 1 (dropWhile (\<lambda>d. d \<noteq> c) s))"
      unfolding option.case by (rule arg_cong [where f = Some]) (rule sp(2))
    show ?thesis
      unfolding ss prod.case by (rule core [OF first k nk v])
  qed
  show ?thesis
  proof (cases "CHR ''='' \<in> set s")
    case True
    then show ?thesis
      by (intro sep [of "CHR ''=''"]) (simp_all add: sc spec_split_line_def)
  next
    case ne: False
    show ?thesis
    proof (cases "CHR '' '' \<in> set s")
      case True
      with ne show ?thesis
        by (intro sep [of "CHR '' ''"]) (simp_all add: sc spec_split_line_def)
    next
      case False
      have first: "(case strchr ?b1 CHR ''='' of Some e \<Rightarrow> Some e | None \<Rightarrow> strchr ?b1 CHR '' '') = None"
        using ne False by (simp add: sc)
      have k: "cstr (case None of Some e \<Rightarrow> ?b1[e := NUL] | None \<Rightarrow> ?b1) = s"
        unfolding option.case using c1 s by (simp add: cstr_no_NUL)
      have v: "(case None :: nat option of
                  Some e \<Rightarrow>
                    Some (cstr (drop (e + 1) (case None of Some e \<Rightarrow> ?b1[e := NUL] | None \<Rightarrow> ?b1)))
                | None \<Rightarrow> None) = None"
        by simp
      have ss: "spec_split_line s = (s, None)"
        using ne False by (simp add: spec_split_line_def)
      show ?thesis
        unfolding ss prod.case by (rule core [OF first k s v])
    qed
  qed
qed

lemma invoke_eq:
  "invoke clip w g opt v =
     (fst (cb clip (usr w) g opt v),
      w\<lparr>usr := snd (cb clip (usr w) g opt v), calls := calls w @ [(g, opt, v)]\<rparr>)"
  by (simp add: invoke_def split: prod.splits)

lemma at_file_example:
  assumes idx: "index clip = 0"
    and v: "cli__find_opt_0 (base clip) ''verbose'' = Some ov"
    and f: "cli__find_opt_0 (base clip) ''file'' = Some fo"
    and len: "strlen path < CLIP_BUFFER_SIZE"
    and content: "files w (cstr path) = Some (''verbose'' @ [newline] @ ''file=x.txt'' @ eol)"
    and eol: "eol = [] \<or> eol = [newline]"
    and args: "argv w = [prog, CHR ''@'' # path]"
  shows "observed (cli_parse clip w) =
    (case invoke clip w (base clip) (Some ov) None of
       (rc1, w1) \<Rightarrow>
         if rc1 \<noteq> 0 then Some (CLIP_ERR_CB_FAIL, calls w1, usr w1)
         else
           (case invoke clip w1 (base clip) (Some fo) (Some ''x.txt'') of
              (rc2, w2) \<Rightarrow>
                Some (if rc2 \<noteq> 0 then CLIP_ERR_CB_FAIL else CLIP_ERR_OK, calls w2, usr w2)))"
proof -
  let ?c1 = "clip\<lparr>index := 1, live := base clip\<rparr>"
  let ?c2 = "clip\<lparr>live := base clip, index := 2\<rparr>"
  have sub: "cli_subcmd (clip\<lparr>index := 1\<rparr>) w = Some ?c1"
    using args by (simp add: cli_subcmd_def argv_at_def argc_def c_string_defs)
  have pre: "cli_prescan ?c1 w [CHR ''@'' # path] = Some (Continue ())"
    by (simp add: show_help_def show_version_def c_string_defs)
  have lookups:
    "cli__find_opt clip (base clip) ''verbose'' = (Some ov, base clip)"
    "cli__find_opt clip (base clip) ''file'' = (Some fo, base clip)"
    using v f by (simp_all add: cli__find_opt_eq)
  have l1: "cli_do_line ?c2 w' (''verbose'' @ [newline]) =
      (case invoke clip w' (base clip) (Some ov) None of
         (rc, w'') \<Rightarrow> if rc \<noteq> 0 then Return (CLIP_ERR_CB_FAIL, w'') else Continue (rc, w''))"
    for w' :: "'a world"
    using cli_do_line_spec [of "''verbose''" "[newline]" ?c2 w']
    by (simp add: spec_split_line_def lookups NUL_def newline_def)
  have l2: "cli_do_line ?c2 w' (''file=x.txt'' @ eol) =
      (case invoke clip w' (base clip) (Some fo) (Some ''x.txt'') of
         (rc, w'') \<Rightarrow> if rc \<noteq> 0 then Return (CLIP_ERR_CB_FAIL, w'') else Continue (rc, w''))"
    for w' :: "'a world"
    using cli_do_line_spec [of "''file=x.txt''" eol ?c2 w', OF _ _ eol]
    by (simp add: spec_split_line_def lookups NUL_def newline_def)
  have fl2: "cli_do_file_loop ?c2 w' (''file=x.txt'' @ eol) r =
      (case cli_do_line ?c2 w' (''file=x.txt'' @ eol) of
         Return x \<Rightarrow> x
       | Continue (r', w'') \<Rightarrow> (r', w''))"
    for w' :: "'a world" and r
  proof (cases "eol = []")
    case True
    with file_loop_last [of "''file=x.txt''" ?c2 w' r] show ?thesis
      by (simp add: newline_def CLIP_BUFFER_SIZE_def)
  next
    case False
    with eol have e: "eol = [newline]" by simp
    from file_loop_line [of "''file=x.txt''" ?c2 w' "[]" r] show ?thesis
      unfolding e
      by (simp add: newline_def CLIP_BUFFER_SIZE_def file_loop_eof split: flow.splits)
  qed
  have fl: "cli_do_file_loop ?c2 w (''verbose'' @ [newline] @ ''file=x.txt'' @ eol) 0 =
      (case cli_do_line ?c2 w (''verbose'' @ [newline]) of
         Return x \<Rightarrow> x
       | Continue (r', w') \<Rightarrow> cli_do_file_loop ?c2 w' (''file=x.txt'' @ eol) r')"
    using file_loop_line [of "''verbose''" ?c2 w "''file=x.txt'' @ eol" 0]
    by (simp add: newline_def CLIP_BUFFER_SIZE_def)
  have df: "cli_do_file ?c2 w path (strlen path) =
      Some (cli_do_file_loop ?c2 w (''verbose'' @ [newline] @ ''file=x.txt'' @ eol) 0)"
  proof -
    have "take (strlen path) (cstr path) = cstr path"
      by (simp add: strlen_def)
    with len content show ?thesis
      by (simp add: cli_do_file_def Let_def)
  qed
  have tok: "cli_token ?c2 w 1 0 =
      (case cli_do_file_loop ?c2 w (''verbose'' @ [newline] @ ''file=x.txt'' @ eol) 0 of
         (r', w') \<Rightarrow>
           if r' \<noteq> 0 then Some (Return (r', ?c2, w')) else Some (Continue (r', ?c2, w')))"
    using args df
    by (simp add: cli_token_def Let_def IS_SHORT_OPT_def IS_LONG_OPT_def char_at_def
        split: prod.splits)
  have loop: "cli_loop ?c1 w 0 =
      (case cli_token ?c2 w 1 0 of
         None \<Rightarrow> None
       | Some (Return x) \<Rightarrow> Some x
       | Some (Continue (r', clip', w')) \<Rightarrow> cli_loop clip' w' r')"
    using args by (simp add: cli_loop.simps [of ?c1] argc_def)
  have fin: "cli_loop ?c2 w' r = Some (r, ?c2, w')" if "argv w' = argv w" for w' r
    using args that by (simp add: cli_loop.simps [of ?c2] argc_def)
  have parse: "cli_parse clip w = cli_loop ?c1 w 0"
    using idx args sub pre by (simp add: cli_parse_def argc_def)
  show ?thesis
    unfolding parse loop tok fl fl2 l1 l2
    by (simp add: invoke_eq fin observed_def CLIP_ERR_CB_FAIL_def CLIP_ERR_OK_def)
qed

lemma direct_tokens_example:
  assumes idx: "index clip = 0"
    and v: "cli__find_opt_0 (base clip) ''v'' = Some ov" and mv: "mode ov = 0"
    and f: "cli__find_opt_0 (base clip) ''file'' = Some fo" and mf: "mode fo AND ARG_REQD \<noteq> 0"
    and args: "argv w = [prog, ''-v'', ''--file=x.txt'']"
  shows "observed (cli_parse clip w) =
    (case invoke clip w (base clip) (Some ov) None of
       (rc1, w1) \<Rightarrow>
         if rc1 \<noteq> 0 then Some (CLIP_ERR_CB_FAIL, calls w1, usr w1)
         else
           (case invoke clip w1 (base clip) (Some fo) (Some ''x.txt'') of
              (rc2, w2) \<Rightarrow>
                Some (if rc2 \<noteq> 0 then CLIP_ERR_CB_FAIL else CLIP_ERR_OK, calls w2, usr w2)))"
proof -
  let ?c1 = "clip\<lparr>index := 1, live := base clip\<rparr>"
  let ?c2 = "clip\<lparr>live := base clip, index := 2\<rparr>"
  let ?c3 = "clip\<lparr>live := base clip, index := 3\<rparr>"
  have sub: "cli_subcmd (clip\<lparr>index := 1\<rparr>) w = Some ?c1"
    using args by (simp add: cli_subcmd_def argv_at_def argc_def c_string_defs)
  have pre: "cli_prescan ?c1 w [''-v'', ''--file=x.txt''] = Some (Continue ())"
    using v by (simp add: show_help_def show_version_def c_string_defs)
  have lookups:
    "cli__find_opt clip (base clip) ''v'' = (Some ov, base clip)"
    "cli__find_opt clip (base clip) ''file'' = (Some fo, base clip)"
    using v f by (simp_all add: cli__find_opt_eq)
  have m: "mode fo \<noteq> 0"
    using mf by (rule mode_reqd_nonzero)
  have cl: "cli_cluster ?c2 w ''-v'' 1 0 =
      (case invoke clip w (base clip) (Some ov) None of
         (rc, w') \<Rightarrow>
           if rc \<noteq> 0 then Some (Return (CLIP_ERR_CB_FAIL, ?c2, w'))
           else Some (Continue (rc, ?c2, w')))"
    using mv by (subst cli_cluster_eq) (simp add: lookups c_string_defs invoke_eq)
  have lg: "cli_parse_long ?c3 w' 2 0 =
      (case invoke clip w' (base clip) (Some fo) (Some ''x.txt'') of
         (rc, w'') \<Rightarrow>
           if rc \<noteq> 0
           then Some (Return (CLIP_ERR_CB_FAIL, ?c3,
                  w''\<lparr>argv := (argv w'')[2 := (''--file=x.txt'')[6 := NUL]]\<rparr>))
           else Some (Continue (rc, ?c3, w'')))"
    if "argv w' = argv w" for w' :: "'a world"
    using that args m mf
    by (subst cli_parse_long_eq) (simp_all add: lookups c_string_defs invoke_eq)
  have tok1: "cli_token ?c2 w 1 0 = cli_cluster ?c2 w ''-v'' 1 0"
    using args by (simp add: cli_token_def IS_SHORT_OPT_def c_string_defs)
  have tok2: "cli_token ?c3 w' 2 0 = cli_parse_long ?c3 w' 2 0"
    if "argv w' = argv w" for w' :: "'a world"
    using that args
    by (simp add: cli_token_def IS_SHORT_OPT_def IS_LONG_OPT_def c_string_defs)
  have loop1: "cli_loop ?c1 w 0 =
      (case cli_token ?c2 w 1 0 of
         None \<Rightarrow> None
       | Some (Return x) \<Rightarrow> Some x
       | Some (Continue (r', clip', w')) \<Rightarrow> cli_loop clip' w' r')"
    using args by (simp add: cli_loop.simps [of ?c1] argc_def)
  have loop2: "cli_loop ?c2 w' r =
      (case cli_token ?c3 w' 2 r of
         None \<Rightarrow> None
       | Some (Return x) \<Rightarrow> Some x
       | Some (Continue (r', clip', w'')) \<Rightarrow> cli_loop clip' w'' r')"
    if "argv w' = argv w" for w' :: "'a world" and r
    using that args by (simp add: cli_loop.simps [of ?c2] argc_def)
  have fin: "cli_loop ?c3 w' r = Some (r, ?c3, w')" if "argv w' = argv w" for w' r
    using args that by (simp add: cli_loop.simps [of ?c3] argc_def)
  have parse: "cli_parse clip w = cli_loop ?c1 w 0"
    using idx args sub pre by (simp add: cli_parse_def argc_def)
  show ?thesis
    unfolding parse loop1 tok1 cl
    by (simp add: invoke_eq loop2 tok2 lg fin observed_def CLIP_ERR_CB_FAIL_def CLIP_ERR_OK_def)
qed

lemma invoke_twice_cong:
  assumes "usr w = usr v" and "calls w = calls v"
  shows "(case invoke clip w g1 o1 v1 of
       (rc1, w1) \<Rightarrow>
         if rc1 \<noteq> 0 then Some (CLIP_ERR_CB_FAIL, calls w1, usr w1)
         else
           (case invoke clip w1 g2 o2 v2 of
              (rc2, w2) \<Rightarrow>
                Some (if rc2 \<noteq> 0 then CLIP_ERR_CB_FAIL else CLIP_ERR_OK, calls w2, usr w2)))
    = (case invoke clip v g1 o1 v1 of
       (rc1, w1) \<Rightarrow>
         if rc1 \<noteq> 0 then Some (CLIP_ERR_CB_FAIL, calls w1, usr w1)
         else
           (case invoke clip w1 g2 o2 v2 of
              (rc2, w2) \<Rightarrow>
                Some (if rc2 \<noteq> 0 then CLIP_ERR_CB_FAIL else CLIP_ERR_OK, calls w2, usr w2)))"
  using assms by (simp add: invoke_eq)

text \<open>
  C7. Let the look-ups of \<open>v\<close> and of \<open>verbose\<close> in the base group find the same switch
  and the look-up of \<open>file\<close> a descriptor that requires a value, and let the file named
  by \<open>path\<close> hold the lines \<open>verbose\<close> and \<open>file=x.txt\<close> (the last with or without its
  newline). Then the parse of \<open>[prog, "@path"]\<close> and the parse of
  \<open>[prog, "-v", "--file=x.txt"]\<close>, started with the same callback state, return the same
  value after the same invocations of the callback, whatever the callback answers:
  first the switch without a value and then, if that was accepted, the other
  descriptor with \<open>x.txt\<close>, both for the base group. In general a line without NUL is
  handled as its split at the first \<open>=\<close>, else at the first space, says: the key is
  looked up in the active group and then in the base group, and the callback is invoked
  once, with the value if there is one.
\<close>

theorem C7_argument_file_as_direct_tokens:
  assumes "index clip = 0"
    and "cli__find_opt_0 (base clip) ''v'' = Some ov"
    and "cli__find_opt_0 (base clip) ''verbose'' = Some ov" and "mode ov = 0"
    and "cli__find_opt_0 (base clip) ''file'' = Some fo" and "mode fo AND ARG_REQD \<noteq> 0"
    and "strlen path < CLIP_BUFFER_SIZE"
    and "files wa (cstr path) = Some (''verbose'' @ [newline] @ ''file=x.txt'' @ eol)"
    and "eol = [] \<or> eol = [newline]"
    and "argv wa = [prog, CHR ''@'' # path]"
    and "argv wd = [prog, ''-v'', ''--file=x.txt'']"
    and "usr wd = usr wa" and "calls wd = calls wa"
  shows "observed (cli_parse clip wa) = observed (cli_parse clip wd)
    \<and> observed (cli_parse clip wd) =
        (case invoke clip wd (base clip) (Some ov) None of
           (rc1, w1) \<Rightarrow>
             if rc1 \<noteq> 0 then Some (CLIP_ERR_CB_FAIL, calls w1, usr w1)
             else
               (case invoke clip w1 (base clip) (Some fo) (Some ''x.txt'') of
                  (rc2, w2) \<Rightarrow>
                    Some (if rc2 \<noteq> 0 then CLIP_ERR_CB_FAIL else CLIP_ERR_OK, calls w2, usr w2)))
    \<and> (NUL \<notin> set s \<and> newline \<notin> set s \<and> (e = [] \<or> e = [newline]) \<longrightarrow>
         cli_do_line cl cw (s @ e) =
           (case spec_split_line s of
              (key, val) \<Rightarrow>
                (case cli__find_opt cl (live cl) key of
                   (None, g) \<Rightarrow>
                     Return (CLIP_ERR_BAD_ARG,
                       emit (err_sink cl)
                         (cli_bad_arg (flags cl) (if length key = 1 then 1 else 2)
                            ''Invalid option:'' key) cw)
                 | (Some od, g) \<Rightarrow>
                     (case invoke cl cw g (Some od) val of
                        (rc, cw') \<Rightarrow>
                          if rc \<noteq> 0 then Return (CLIP_ERR_CB_FAIL, cw') else Continue (rc, cw')))))
    \<and> cli__find_opt cl (live cl) k =
        (case cli__find_opt_0 (live cl) k of
           Some od \<Rightarrow> (Some od, live cl)
         | None \<Rightarrow>
             if live cl \<noteq> base cl then
               (case cli__find_opt_0 (base cl) k of
                  Some od \<Rightarrow> (Some od, base cl)
                | None \<Rightarrow> (None, None))
             else (None, None))"
proof -
  note a = at_file_example [OF assms(1,3,5,7,8,9,10)]
  note d = direct_tokens_example [OF assms(1,2,4,5,6,11)]
  note c = invoke_twice_cong [OF assms(12,13)]
  have "observed (cli_parse clip wa) = observed (cli_parse clip wd)"
    unfolding a d by (rule c [symmetric])
  moreover note d
  moreover have "NUL \<notin> set s \<and> newline \<notin> set s \<and> (e = [] \<or> e = [newline]) \<longrightarrow>
         cli_do_line cl cw (s @ e) =
           (case spec_split_line s of
              (key, val) \<Rightarrow>
                (case cli__find_opt cl (live cl) key of
                   (None, g) \<Rightarrow>
                     Return (CLIP_ERR_BAD_ARG,
                       emit (err_sink cl)
                         (cli_bad_arg (flags cl) (if length key = 1 then 1 else 2)
                            ''Invalid option:'' key) cw)
                 | (Some od, g) \<Rightarrow>
                     (case invoke cl cw g (Some od) val of
                        (rc, cw') \<Rightarrow>
                          if rc \<noteq> 0 then Return (CLIP_ERR_CB_FAIL, cw') else Continue (rc, cw'))))"
    using cli_do_line_spec [of s e cl cw] by blast
  moreover note cli__find_opt_eq [of cl "live cl" k]
  ultimately show ?thesis by blast
qed

theorem C7_argument_file_as_direct_tokens_witness:
  "observed (cli_parse vf_clip
       (file_world [''prog'', ''@args.txt''] ''args.txt''
          (''verbose'' @ [newline] @ ''file=x.txt'' @ [newline])))
     = observed (cli_parse vf_clip (ex_world [''prog'', ''-v'', ''--file=x.txt'']))
   \<and> observed (cli_parse vf_clip (ex_world [''prog'', ''-v'', ''--file=x.txt'']))
     = Some (CLIP_ERR_OK,
         [(base vf_clip, Some verbose_opt, None), (base vf_clip, Some file_opt, Some ''x.txt'')], 2)
   \<and> cli_do_line (vf_clip\<lparr>live := base vf_clip\<rparr>) (ex_world []) (''file=x.txt'' @ [newline])
     = Continue (0, (ex_world [])\<lparr>usr := 1,
                      calls := [(base vf_clip, Some file_opt, Some ''x.txt'')]\<rparr>)"
proof -
  let ?wa = "file_world [''prog'', ''@args.txt''] ''args.txt''
          (''verbose'' @ [newline] @ ''file=x.txt'' @ [newline])"
  let ?wd = "ex_world [''prog'', ''-v'', ''--file=x.txt'']"
  note defs = parse_defs c_string_defs clip_h_defs example_defs
  have h: "index vf_clip = 0"
    "cli__find_opt_0 (base vf_clip) ''v'' = Some verbose_opt"
    "cli__find_opt_0 (base vf_clip) ''verbose'' = Some verbose_opt" "mode verbose_opt = 0"
    "cli__find_opt_0 (base vf_clip) ''file'' = Some file_opt" "mode file_opt AND ARG_REQD \<noteq> 0"
    "strlen ''args.txt'' < CLIP_BUFFER_SIZE"
    "files ?wa (cstr ''args.txt'') = Some (''verbose'' @ [newline] @ ''file=x.txt'' @ [newline])"
    "[newline] = [] \<or> [newline] = [newline]"
    "argv ?wa = [''prog'', CHR ''@'' # ''args.txt'']"
    "argv ?wd = [''prog'', ''-v'', ''--file=x.txt'']"
    "usr ?wd = usr ?wa" "calls ?wd = calls ?wa"
    by (simp_all add: defs file_world_def)
  note t = C7_argument_file_as_direct_tokens [OF h,
      where s = "''file=x.txt''" and e = "[newline]" and cl = "vf_clip\<lparr>live := base vf_clip\<rparr>"
        and cw = "ex_world []" and k = "''file''"]
  have 1: "observed (cli_parse vf_clip ?wa) = observed (cli_parse vf_clip ?wd)"
    using t by (rule conjunct1)
  have 2: "observed (cli_parse vf_clip ?wd)
     = Some (CLIP_ERR_OK,
         [(base vf_clip, Some verbose_opt, None), (base vf_clip, Some file_opt, Some ''x.txt'')], 2)"
    unfolding t [THEN conjunct2, THEN conjunct1]
    by (simp add: invoke_eq defs)
  have s: "spec_split_line ''file=x.txt'' = (''file'', Some ''x.txt'')"
    by (simp add: spec_split_line_def)
  have n: "NUL \<notin> set ''file=x.txt'' \<and> newline \<notin> set ''file=x.txt''
      \<and> ([newline] = [] \<or> [newline] = [newline])"
    by (simp add: NUL_def newline_def)
  have 3: "cli_do_line (vf_clip\<lparr>live := base vf_clip\<rparr>) (ex_world []) (''file=x.txt'' @ [newline])
     = Continue (0, (ex_world [])\<lparr>usr := 1,
                      calls := [(base vf_clip, Some file_opt, Some ''x.txt'')]\<rparr>)"
    using t [THEN conjunct2, THEN conjunct2, THEN conjunct1, rule_format, OF n]
    unfolding s prod.case
    by (simp add: defs)
  from 1 2 3 show ?thesis by blast
qed

section \<open>The pre-scan for automatic help and version\<close>

lemma cli_subcmd_frame:
  "cli_subcmd c w = Some c' \<Longrightarrow> c' = c\<lparr>live := live c', index := index c'\<rparr>"
  by (auto simp: cli_subcmd_def Let_def split: if_splits option.splits bind_splits)

lemma prescan_skip:
  "\<forall>t\<in>set pre. \<not> show_help c t \<and> \<not> show_version c t \<Longrightarrow>
   cli_prescan c w (pre @ rest) = cli_prescan c w rest"
  by (induction pre) simp_all

lemma version_tokens_no_help:
  "\<not> show_help c ''-v''" "\<not> show_help c ''--version''"
  by (simp_all add: show_help_def c_string_defs)

lemma show_version_literal:
  "show_version c ''-v'' \<longleftrightarrow>
     flags c AND CLIP_FLAG_VERSION \<noteq> 0 \<and> version c \<noteq> None \<and> cli__find_opt_0 (base c) ''v'' = None"
  "show_version c ''--version'' \<longleftrightarrow>
     flags c AND CLIP_FLAG_VERSION \<noteq> 0 \<and> version c \<noteq> None
     \<and> cli__find_opt_0 (base c) ''version'' = None"
  by (auto simp: show_version_def c_string_defs)

text \<open>
  C4. Let the pre-scan reach a token that is literally \<open>-v\<close> or \<open>--version\<close>, no token
  before it having started automatic help or version. The token makes \<open>cli_parse\<close>
  print the program name and the version and return \<open>CLIP_ERR_HELP\<close> exactly when
  \<open>CLIP_FLAG_VERSION\<close> is set, a version string is configured and the base group has no
  descriptor of the same spelling: the short name \<open>v\<close> for \<open>-v\<close>, the long name
  \<open>version\<close> for \<open>--version\<close>. Otherwise the pre-scan passes over the token and goes on
  with the tokens after it. The line printed is \<open>progname version\<close>, with the program
  name in colour under \<open>CLIP_FLAG_USE_ANSI\<close>.
\<close>

theorem C4_auto_version_per_spelling:
  assumes "index clip = 0" and "1 < argc w"
    and "cli_subcmd (clip\<lparr>index := 1\<rparr>) w = Some c1"
    and "drop (nat (index c1)) (argv w) = pre @ arg # post"
    and "\<forall>t\<in>set pre. \<not> show_help c1 t \<and> \<not> show_version c1 t"
    and "(arg = ''-v'' \<and> key = ''v'') \<or> (arg = ''--version'' \<and> key = ''version'')"
  shows "(show_version c1 arg \<longleftrightarrow>
            flags clip AND CLIP_FLAG_VERSION \<noteq> 0 \<and> version clip \<noteq> None
            \<and> cli__find_opt_0 (base clip) key = None)
    \<and> (show_version c1 arg \<longrightarrow>
          cli_parse clip w =
            (case version_text clip of
               None \<Rightarrow> UB
             | Some t \<Rightarrow> Some (CLIP_ERR_HELP, c1, emit (err_sink clip) t w)))
    \<and> (\<not> show_version c1 arg \<longrightarrow>
          cli_parse clip w =
            (case cli_prescan c1 w post of
               None \<Rightarrow> UB
             | Some (Return x) \<Rightarrow> Some x
             | Some (Continue u) \<Rightarrow> cli_loop c1 w 0))
    \<and> (progname clip = Some p \<and> version clip = Some ver \<longrightarrow>
          version_text clip =
            Some (if flags clip AND CLIP_FLAG_USE_ANSI \<noteq> 0
                  then ANSI_PROG @ cstr p @ ANSI_END @ '' '' @ cstr ver @ [newline]
                  else cstr p @ '' '' @ cstr ver @ [newline]))"
proof -
  from cli_subcmd_frame [OF assms(3)]
  have fr: "c1 = clip\<lparr>index := 1, live := live c1, index := index c1\<rparr>"
    by simp
  have same: "flags c1 = flags clip" "version c1 = version clip" "base c1 = base clip"
    "version_text c1 = version_text clip" "err_sink c1 = err_sink clip"
    by (subst fr, simp add: version_text_def err_sink_def)+
  have nh: "\<not> show_help c1 arg"
    using assms(6) version_tokens_no_help [of c1] by auto
  have sv: "show_version c1 arg \<longleftrightarrow>
      flags clip AND CLIP_FLAG_VERSION \<noteq> 0 \<and> version clip \<noteq> None
      \<and> cli__find_opt_0 (base clip) key = None"
    using assms(6) show_version_literal [of c1] by (auto simp: same)
  have scan: "cli_prescan c1 w (drop (nat (index c1)) (argv w)) =
      (if show_version c1 arg then
         (case version_text clip of
            None \<Rightarrow> None
          | Some t \<Rightarrow> Some (Return (CLIP_ERR_HELP, c1, emit (err_sink clip) t w)))
       else cli_prescan c1 w post)"
    unfolding assms(4) prescan_skip [OF assms(5)]
    using nh by (simp add: same split: option.splits)
  have parse: "cli_parse clip w =
      (case cli_prescan c1 w (drop (nat (index c1)) (argv w)) of
         None \<Rightarrow> None
       | Some (Return x) \<Rightarrow> Some x
       | Some (Continue u) \<Rightarrow> cli_loop c1 w 0)"
    using assms(1,2,3) by (simp add: cli_parse_def split: option.splits flow.splits)
  have trig: "show_version c1 arg \<longrightarrow>
      cli_parse clip w =
        (case version_text clip of
           None \<Rightarrow> UB
         | Some t \<Rightarrow> Some (CLIP_ERR_HELP, c1, emit (err_sink clip) t w))"
    unfolding parse scan by (simp split: option.splits)
  have pass: "\<not> show_version c1 arg \<longrightarrow>
      cli_parse clip w =
        (case cli_prescan c1 w post of
           None \<Rightarrow> UB
         | Some (Return x) \<Rightarrow> Some x
         | Some (Continue u) \<Rightarrow> cli_loop c1 w 0)"
    unfolding parse scan by simp
  have vline: "progname clip = Some p \<and> version clip = Some ver \<longrightarrow>
      version_text clip =
        Some (if flags clip AND CLIP_FLAG_USE_ANSI \<noteq> 0
              then ANSI_PROG @ cstr p @ ANSI_END @ '' '' @ cstr ver @ [newline]
              else cstr p @ '' '' @ cstr ver @ [newline])"
    by (simp add: version_text_def put_s_def)
  from sv trig pass vline show ?thesis by blast
qed

text \<open>
  A base group with \<open>-v/--verbose\<close> does not stop \<open>--version\<close>: the version is printed
  and \<open>CLIP_ERR_HELP\<close> returned although the base group has a descriptor named \<open>v\<close>.
\<close>

theorem C4_version_counterexample:
  "cli_parse ver_clip (ex_world [''prog'', ''--version''])
     = Some (CLIP_ERR_HELP, ver_clip\<lparr>index := 1, live := base ver_clip\<rparr>,
         emit Stderr (''prog 1.0'' @ [newline]) (ex_world [''prog'', ''--version'']))
   \<and> cli__find_opt_0 (base ver_clip) ''v'' = Some verbose_opt"
  by (simp add: parse_defs c_string_defs clip_h_defs example_defs ver_clip_def)

theorem C4_auto_version_per_spelling_witness:
  "cli_parse ver_clip (ex_world [''prog'', ''-f'', ''x'', ''--version''])
     = Some (CLIP_ERR_HELP, ver_clip\<lparr>index := 1, live := base ver_clip\<rparr>,
         emit Stderr (''prog 1.0'' @ [newline]) (ex_world [''prog'', ''-f'', ''x'', ''--version'']))
   \<and> observed (cli_parse ver_clip (ex_world [''prog'', ''-v'']))
     = Some (CLIP_ERR_OK, [(base ver_clip, Some verbose_opt, None)], 1)"
proof -
  let ?c1 = "ver_clip\<lparr>index := 1, live := base ver_clip\<rparr>"
  let ?w = "ex_world [''prog'', ''-f'', ''x'', ''--version'']"
  let ?v = "ex_world [''prog'', ''-v'']"
  note defs = parse_defs c_string_defs clip_h_defs example_defs ver_clip_def
  have h: "index ver_clip = 0" "1 < argc ?w"
    "cli_subcmd (ver_clip\<lparr>index := 1\<rparr>) ?w = Some ?c1"
    "drop (nat (index ?c1)) (argv ?w) = [''-f'', ''x''] @ ''--version'' # []"
    "\<forall>t\<in>set [''-f'', ''x'']. \<not> show_help ?c1 t \<and> \<not> show_version ?c1 t"
    "(''--version'' = ''-v'' \<and> ''version'' = ''v'') \<or> (''--version'' = ''--version'' \<and> ''version'' = ''version'')"
    by (simp_all add: defs)
  note t = C4_auto_version_per_spelling [OF h, where p = "''prog''" and ver = "''1.0''"]
  have sv: "show_version ?c1 ''--version''"
    unfolding t [THEN conjunct1] by (simp add: defs)
  have tx: "version_text ver_clip = Some (''prog 1.0'' @ [newline])"
    using t [THEN conjunct2, THEN conjunct2, THEN conjunct2] by (simp add: defs)
  have 1: "cli_parse ver_clip ?w = Some (CLIP_ERR_HELP, ?c1, emit Stderr (''prog 1.0'' @ [newline]) ?w)"
    using t [THEN conjunct2, THEN conjunct1, rule_format, OF sv] unfolding tx
    by (simp add: err_sink_def example_defs ver_clip_def)
  have g: "index ver_clip = 0" "1 < argc ?v"
    "cli_subcmd (ver_clip\<lparr>index := 1\<rparr>) ?v = Some ?c1"
    "drop (nat (index ?c1)) (argv ?v) = [] @ ''-v'' # []"
    "\<forall>t\<in>set []. \<not> show_help ?c1 t \<and> \<not> show_version ?c1 t"
    "(''-v'' = ''-v'' \<and> ''v'' = ''v'') \<or> (''-v'' = ''--version'' \<and> ''v'' = ''version'')"
    by (simp_all add: defs)
  note u = C4_auto_version_per_spelling [OF g]
  have nv: "\<not> show_version ?c1 ''-v''"
    unfolding u [THEN conjunct1] by (simp add: defs)
  have 2: "observed (cli_parse ver_clip ?v) = Some (CLIP_ERR_OK, [(base ver_clip, Some verbose_opt, None)], 1)"
    unfolding u [THEN conjunct2, THEN conjunct2, THEN conjunct1, rule_format, OF nv]
    by (simp add: observed_def defs)
  from 1 2 show ?thesis by blast
qed


lemma char_of_h: "char_of (104 :: int) = CHR ''h''"
  by code_simp

lemma show_help_iff:
  "show_help c t \<longleftrightarrow>
     flags c AND CLIP_FLAG_HELP \<noteq> 0
     \<and> (char_at t 0 = CHR ''-'' \<and> char_at t 1 = CHR ''h'' \<and> cli__find_opt_0 (base c) ''h'' = None
         \<or> 6 < strlen t \<and> take 6 t = ''--help'' \<and> cli__find_opt_0 (base c) ''help'' = None)"
  by (auto simp: show_help_def Let_def memcmp_eq_def)




text \<open>
  Two places where the code misses what it sets out to do. The comparison for \<open>--help\<close>
  asks for more than six bytes, so the token \<open>--help\<close> itself never starts automatic
  help (the one for \<open>--version\<close> asks for nine or more). And \<open>cli_summary\<close> copies the
  name of the group without a test for NULL, so the help of a group without a name,
  such as a base group built with \<open>CLI_CMD(NULL, ...)\<close>, is not defined.
\<close>

lemma literal_long_help_is_not_matched: "\<not> show_help c ''--help''"
  by (simp add: show_help_iff c_string_defs)

lemma summary_of_group_without_name:
  assumes "name g = None"
  shows "cli_summary c (Some g) w = UB"
proof -
  have "(case Some g of None \<Rightarrow> Some [] | Some c' \<Rightarrow>
           (case name c' of None \<Rightarrow> (UB :: string option) | Some n \<Rightarrow> f n)) = None" for f
    using assms by simp
  then show ?thesis
    unfolding cli_summary_def Let_def
    by (auto simp: assms split: bind_splits)
qed

lemma help_of_unnamed_base_example:
  "cli_parse help_clip (ex_world [''pip'', ''-h'']) = UB"
  by (simp add: parse_defs c_string_defs clip_h_defs example_defs render_defs)

lemma literal_long_help_example:
  "observed (cli_parse help_clip (ex_world [''pip'', ''install'', ''--help'']))
     = Some (CLIP_ERR_BAD_ARG, [], 0)"
  by (simp add: observed_def parse_defs c_string_defs clip_h_defs example_defs)

section \<open>What a parse writes\<close>

lemma cluster_step_frame:
  assumes "cluster_step clip w arg i r = Some res"
  shows "(\<forall>rv c' w'. res = Return (rv, c', w') \<longrightarrow>
            c' = clip\<lparr>index := index c'\<rparr> \<and> def_version w' = def_version w)
       \<and> (\<forall>rv c' w' a j. res = Continue ((rv, c', w'), a, j) \<longrightarrow>
            c' = clip\<lparr>index := index c'\<rparr> \<and> def_version w' = def_version w)"
  using assms
  by (auto simp: cluster_step_def Let_def emit_def
      split: prod.splits option.splits if_splits bind_splits dest!: invoke_frame)

lemma index_twice:
  "c1 = clip\<lparr>index := index c1\<rparr> \<Longrightarrow> c2 = c1\<lparr>index := index c2\<rparr> \<Longrightarrow> c2 = clip\<lparr>index := index c2\<rparr>"
proof -
  assume 1: "c1 = clip\<lparr>index := index c1\<rparr>" and 2: "c2 = c1\<lparr>index := index c2\<rparr>"
  have "c2 = (clip\<lparr>index := index c1\<rparr>)\<lparr>index := index c2\<rparr>"
    by (subst 2, subst 1) simp
  then show ?thesis by simp
qed

lemma cli_cluster_frame:
  assumes "cli_cluster clip w arg i r = Some res"
  shows "(\<forall>rv c' w'. res = Return (rv, c', w') \<or> res = Continue (rv, c', w') \<longrightarrow>
            c' = clip\<lparr>index := index c'\<rparr> \<and> def_version w' = def_version w)"
  using assms
proof (induction clip w arg i r rule: cli_cluster.induct)
  case (1 clip w arg i r)
  from "1.prems" obtain st where st: "cluster_step clip w arg i r = Some st"
    by (auto simp: cli_cluster.simps [of clip w arg i r] split: option.splits)
  note fr = cluster_step_frame [OF st]
  show ?case
  proof (cases st)
    case (Return x)
    with "1.prems" st fr show ?thesis
      by (auto simp: cli_cluster.simps [of clip w arg i r])
  next
    case (Continue y)
    obtain r1 c1 w1 a1 i1 where y: "y = ((r1, c1, w1), a1, i1)"
      by (cases y) auto
    from fr Continue y have f1: "c1 = clip\<lparr>index := index c1\<rparr>" "def_version w1 = def_version w"
      by blast+
    show ?thesis
    proof (cases "char_at a1 i1 \<noteq> NUL")
      case True
      with "1.prems" st Continue y have "cli_cluster c1 w1 a1 i1 r1 = Some res"
        by (simp add: cli_cluster.simps [of clip w arg i r])
      from "1.IH" [OF st [unfolded Continue y] refl refl refl refl refl True this] f1
      show ?thesis
        by (auto intro: index_twice)
    next
      case False
      with "1.prems" st Continue y f1 show ?thesis
        by (auto simp: cli_cluster.simps [of clip w arg i r])
    qed
  qed
qed

lemma cli_parse_long_frame:
  assumes "cli_parse_long clip w a r = Some res"
  shows "(\<forall>rv c' w'. res = Return (rv, c', w') \<or> res = Continue (rv, c', w') \<longrightarrow>
            c' = clip\<lparr>index := index c'\<rparr> \<and> def_version w' = def_version w)"
  using assms
  by (auto simp: cli_parse_long_def Let_def emit_def
      split: prod.splits option.splits if_splits bind_splits dest!: invoke_frame)

lemma cli_do_line_frame:
  "cli_do_line clip w b = Return (rv, w') \<or> cli_do_line clip w b = Continue (rv, w') \<Longrightarrow>
   def_version w' = def_version w"
  by (auto simp: cli_do_line_def Let_def emit_def split: prod.splits if_splits dest!: invoke_frame)

lemma cli_do_file_loop_frame:
  "cli_do_file_loop clip w f r = (rv, w') \<Longrightarrow> def_version w' = def_version w"
proof (induction clip w f r rule: cli_do_file_loop.induct)
  case (1 clip w f r)
  show ?case
  proof (cases "fgets CLIP_BUFFER_SIZE f")
    case None
    with "1.prems" show ?thesis by (simp add: cli_do_file_loop.simps [of clip w f r])
  next
    case (Some bf)
    obtain b f' where bf: "bf = (b, f')" by (cases bf)
    show ?thesis
    proof (cases "cli_do_line clip w b")
      case (Return x)
      with "1.prems" Some bf show ?thesis
        by (cases x) (auto simp: cli_do_file_loop.simps [of clip w f r]
            dest: cli_do_line_frame [OF disjI1])
    next
      case (Continue y)
      obtain r1 w1 where y: "y = (r1, w1)" by (cases y)
      from Continue y have "def_version w1 = def_version w"
        by (auto dest: cli_do_line_frame [OF disjI2])
      moreover from "1.prems" Some bf Continue y
      have "cli_do_file_loop clip w1 f' r1 = (rv, w')"
        by (simp add: cli_do_file_loop.simps [of clip w f r])
      then have "def_version w' = def_version w1"
        using "1.IH" [OF Some bf [symmetric] Continue y [symmetric]] by simp
      ultimately show ?thesis by simp
    qed
  qed
qed

lemma cli_token_frame:
  assumes "cli_token clip w a r = Some res"
  shows "(\<forall>rv c' w'. res = Return (rv, c', w') \<or> res = Continue (rv, c', w') \<longrightarrow>
            c' = clip\<lparr>index := index c'\<rparr> \<and> def_version w' = def_version w)"
proof -
  let ?arg = "argv w ! a"
  consider (short) "IS_SHORT_OPT ?arg"
    | (long) "\<not> IS_SHORT_OPT ?arg" "IS_LONG_OPT ?arg"
    | (other) "\<not> IS_SHORT_OPT ?arg" "\<not> IS_LONG_OPT ?arg"
    by blast
  then show ?thesis
  proof cases
    case short
    with assms have "cli_cluster clip w ?arg 1 r = Some res"
      by (simp add: cli_token_def)
    then show ?thesis by (rule cli_cluster_frame)
  next
    case long
    with assms have "cli_parse_long clip w a r = Some res"
      by (simp add: cli_token_def)
    then show ?thesis by (rule cli_parse_long_frame)
  next
    case other
    with assms show ?thesis
      by (auto simp: cli_token_def Let_def cli_do_file_def emit_def
          split: prod.splits option.splits if_splits bind_splits
          dest!: invoke_frame cli_do_file_loop_frame)
  qed
qed

lemma cli_loop_frame:
  "cli_loop clip w r = Some (rv, c', w') \<Longrightarrow>
   c' = clip\<lparr>index := index c'\<rparr> \<and> def_version w' = def_version w"
proof (induction clip w r rule: cli_loop.induct)
  case (1 clip w r)
  show ?case
  proof (cases "index clip < argc w")
    case False
    with "1.prems" show ?thesis
      by (auto simp: cli_loop.simps [of clip w r])
  next
    case True
    with "1.prems" have nn: "\<not> index clip < 0"
      by (auto simp: cli_loop.simps [of clip w r] split: if_splits)
    from "1.prems" True nn obtain res where
      tk: "cli_token (clip\<lparr>index := index clip + 1\<rparr>) w (nat (index clip)) r = Some res"
      by (auto simp: cli_loop.simps [of clip w r] split: option.splits)
    note fr = cli_token_frame [OF tk]
    show ?thesis
    proof (cases res)
      case (Return x)
      with "1.prems" True nn tk have x: "x = (rv, c', w')"
        by (simp add: cli_loop.simps [of clip w r])
      from fr Return x have "c' = (clip\<lparr>index := index clip + 1\<rparr>)\<lparr>index := index c'\<rparr>"
        and "def_version w' = def_version w"
        by blast+
      then show ?thesis by simp
    next
      case (Continue y)
      obtain r1 c1 w1 where y: "y = (r1, c1, w1)" by (cases y)
      from fr Continue y have f1: "c1 = (clip\<lparr>index := index clip + 1\<rparr>)\<lparr>index := index c1\<rparr>"
        "def_version w1 = def_version w"
        by blast+
      from "1.prems" True nn tk Continue y have "cli_loop c1 w1 r1 = Some (rv, c', w')"
        by (simp add: cli_loop.simps [of clip w r])
      from "1.IH" [OF True nn tk Continue y [symmetric] refl this] f1
      show ?thesis
        by (auto intro: index_twice)
    qed
  qed
qed

lemma cli_summary_def_version:
  assumes "cli_summary c g w = Some (x, w')"
  shows "def_version w' =
    (if flags c AND CLIP_FLAG_VERSION \<noteq> 0 \<and> cli__find_opt_0 (base c) ''v'' \<noteq> None
     then (def_version w)\<lparr>a_short := 0\<rparr> else def_version w)"
proof (cases "(flags c AND CLIP_FLAG_HELP \<noteq> 0 \<or> flags c AND CLIP_FLAG_VERSION \<noteq> 0)
    \<and> flags c AND CLIP_FLAG_VERSION \<noteq> 0 \<and> cli__find_opt_0 (base c) ''v'' \<noteq> None")
  case True
  with assms show ?thesis
    unfolding cli_summary_def Let_def
    by (simp only: bind_eq_Some_conv if_True) (auto simp: emit_def)
next
  case False
  with assms show ?thesis
    unfolding cli_summary_def Let_def
    by (simp only: bind_eq_Some_conv if_False) (auto simp: emit_def)
qed

lemma cli_prescan_frame:
  "cli_prescan c w args = Some (Return (rv, c', w')) \<Longrightarrow>
   c' = c \<and> rv = CLIP_ERR_HELP
   \<and> (def_version w' = def_version w
      \<or> def_version w' = (def_version w)\<lparr>a_short := 0\<rparr>
        \<and> flags c AND CLIP_FLAG_HELP \<noteq> 0 \<and> flags c AND CLIP_FLAG_VERSION \<noteq> 0
        \<and> cli__find_opt_0 (base c) ''v'' \<noteq> None)"
proof (induction args)
  case Nil
  then show ?case by simp
next
  case (Cons arg rest)
  consider (summary) "show_help c arg"
    | (version) "\<not> show_help c arg" "show_version c arg"
    | (pass) "\<not> show_help c arg" "\<not> show_version c arg"
    by blast
  then show ?case
  proof cases
    case summary
    with Cons.prems obtain x where s: "cli_summary c (live c) w = Some (x, w')"
      and r: "c' = c" "rv = CLIP_ERR_HELP"
      by (auto split: bind_splits)
    from summary have "flags c AND CLIP_FLAG_HELP \<noteq> 0"
      by (simp add: show_help_iff)
    with cli_summary_def_version [OF s] r show ?thesis
      by (simp split: if_splits)
  next
    case version
    with Cons.prems show ?thesis
      by (auto simp: emit_def split: bind_splits)
  next
    case pass
    with Cons show ?thesis by simp
  qed
qed

text \<open>
  C5. Of a parse that returns, the configuration comes back with the base group, the
  list of sub-commands and every other field as they were, apart from the cursor
  \<open>index\<close> and the active group \<open>live\<close>. The shared descriptor \<open>def_version\<close> of the
  library comes back as it was or with its short name set to 0; the latter only when
  the parse returns \<open>CLIP_ERR_HELP\<close> with both automatic help and automatic version on
  and a descriptor \<open>v\<close> in the base group.
\<close>

theorem C5_tables_of_the_caller_unchanged:
  assumes "cli_parse clip w = Some (rv, clip', w')"
  shows "clip' = clip\<lparr>index := index clip', live := live clip'\<rparr>
    \<and> base clip' = base clip \<and> cmds clip' = cmds clip
    \<and> (def_version w' = def_version w
       \<or> def_version w' = (def_version w)\<lparr>a_short := 0\<rparr>
         \<and> rv = CLIP_ERR_HELP
         \<and> flags clip AND CLIP_FLAG_HELP \<noteq> 0 \<and> flags clip AND CLIP_FLAG_VERSION \<noteq> 0
         \<and> cli__find_opt_0 (base clip) ''v'' \<noteq> None)"
proof -
  have main: "clip' = clip\<lparr>index := index clip', live := live clip'\<rparr>
    \<and> (def_version w' = def_version w
       \<or> def_version w' = (def_version w)\<lparr>a_short := 0\<rparr>
         \<and> rv = CLIP_ERR_HELP
         \<and> flags clip AND CLIP_FLAG_HELP \<noteq> 0 \<and> flags clip AND CLIP_FLAG_VERSION \<noteq> 0
         \<and> cli__find_opt_0 (base clip) ''v'' \<noteq> None)"
  proof (cases "index clip \<noteq> 0 \<or> \<not> argc w > 1")
    case True
    with assms have "clip' = clip \<or> clip' = clip\<lparr>index := 0\<rparr>" and "w' = w"
      by (auto simp: cli_parse_def Let_def split: if_splits)
    with True assms show ?thesis
      by (auto simp: cli_parse_def Let_def split: if_splits)
  next
    case False
    then have i: "index clip = 0" and n: "1 < argc w"
      by simp_all
    from assms i n obtain c1 pre where
      sub: "cli_subcmd (clip\<lparr>index := 1\<rparr>) w = Some c1"
      and pre: "cli_prescan c1 w (drop (nat (index c1)) (argv w)) = Some pre"
      and fin: "(case pre of Return x \<Rightarrow> Some x | Continue u \<Rightarrow> cli_loop c1 w 0) = Some (rv, clip', w')"
      by (auto simp: cli_parse_def Let_def split: bind_splits)
    from cli_subcmd_frame [OF sub] obtain l i where
      fr: "c1 = clip\<lparr>index := 1, live := l, index := i\<rparr>"
      by blast
    have same: "flags c1 = flags clip" "base c1 = base clip"
      by (simp_all add: fr)
    show ?thesis
    proof (cases pre)
      case (Return x)
      with fin have x: "x = (rv, clip', w')" by simp
      from cli_prescan_frame [OF pre [unfolded Return x]] same
      have c: "clip' = c1" and "def_version w' = def_version w
         \<or> def_version w' = (def_version w)\<lparr>a_short := 0\<rparr>
           \<and> rv = CLIP_ERR_HELP
           \<and> flags clip AND CLIP_FLAG_HELP \<noteq> 0 \<and> flags clip AND CLIP_FLAG_VERSION \<noteq> 0
           \<and> cli__find_opt_0 (base clip) ''v'' \<noteq> None"
        by auto
      moreover have "clip' = clip\<lparr>index := index clip', live := live clip'\<rparr>"
        by (simp add: c fr)
      ultimately show ?thesis by blast
    next
      case (Continue u)
      with fin have "cli_loop c1 w 0 = Some (rv, clip', w')" by simp
      from cli_loop_frame [OF this] obtain j where
        c: "clip' = c1\<lparr>index := j\<rparr>" and d: "def_version w' = def_version w"
        by blast
      have "clip' = clip\<lparr>index := index clip', live := live clip'\<rparr>"
        by (simp add: c fr)
      with d show ?thesis by blast
    qed
  qed
  from main have m: "clip' = clip\<lparr>index := index clip', live := live clip'\<rparr>"
    by blast
  have "base clip' = base clip"
    by (subst m) simp
  moreover have "cmds clip' = cmds clip"
    by (subst m) simp
  ultimately show ?thesis
    using main by blast
qed

text \<open>
  With automatic help and version on and \<open>-v\<close> in the base group, the help of
  \<open>install\<close> leaves the shared descriptor without its short name.
\<close>

theorem C5_def_version_counterexample:
  "shared_version (cli_parse hv_clip (ex_world [''prog'', ''install'', ''-h'']))
     = Some (def_version_init\<lparr>a_short := 0\<rparr>)
   \<and> def_version (ex_world [''prog'', ''install'', ''-h'']) = def_version_init
   \<and> a_short def_version_init = char_int CHR ''v''
   \<and> char_int CHR ''v'' \<noteq> 0"
  by (simp add: shared_version_def hv_clip_def parse_defs c_string_defs clip_h_defs example_defs
      render_defs char_of_h)

theorem C5_tables_of_the_caller_unchanged_witness:
  "tables_of (cli_parse hv_clip (ex_world [''prog'', ''install'', ''-h'']))
     = Some (base hv_clip, cmds hv_clip)
   \<and> tables_of (cli_parse vf_clip (ex_world [''prog'', ''-v'', ''--file=x.txt'']))
     = Some (base vf_clip, cmds vf_clip)
   \<and> shared_version (cli_parse vf_clip (ex_world [''prog'', ''-v'', ''--file=x.txt'']))
     = Some def_version_init"
proof -
  let ?h = "ex_world [''prog'', ''install'', ''-h'']"
  let ?v = "ex_world [''prog'', ''-v'', ''--file=x.txt'']"
  note defs = hv_clip_def parse_defs c_string_defs clip_h_defs example_defs
  have "cli_parse hv_clip ?h \<noteq> None"
    by (simp add: defs render_defs char_of_h)
  then obtain rv c' w' where p: "cli_parse hv_clip ?h = Some (rv, c', w')"
    by auto
  from C5_tables_of_the_caller_unchanged [OF p]
  have 1: "tables_of (cli_parse hv_clip ?h) = Some (base hv_clip, cmds hv_clip)"
    by (simp add: tables_of_def p)
  have "cli_parse vf_clip ?v \<noteq> None"
    by (simp add: defs)
  then obtain rv2 c2 w2 where q: "cli_parse vf_clip ?v = Some (rv2, c2, w2)"
    by auto
  have ok: "map_option fst (cli_parse vf_clip ?v) = Some CLIP_ERR_OK"
    by (simp add: defs)
  with q have "rv2 \<noteq> CLIP_ERR_HELP"
    by (simp add: CLIP_ERR_OK_def CLIP_ERR_HELP_def)
  with C5_tables_of_the_caller_unchanged [OF q]
  have "base c2 = base vf_clip" "cmds c2 = cmds vf_clip" "def_version w2 = def_version ?v"
    by auto
  moreover have "def_version ?v = def_version_init"
    by (simp add: ex_world_def)
  ultimately have 2: "tables_of (cli_parse vf_clip ?v) = Some (base vf_clip, cmds vf_clip)"
    and 3: "shared_version (cli_parse vf_clip ?v) = Some def_version_init"
    by (simp_all add: tables_of_def shared_version_def q)
  from 1 2 3 show ?thesis by blast
qed

end
